theory Spec2Isabelle
  imports Main
begin

section \<open>PHP values as the engine sees them\<close>

text \<open>
  The engine (class JsonDB, PHP source embedded in the constants module) works on what
  \<^verbatim>\<open>json_decode($text, true)\<close> returns: null, booleans, integers, strings and PHP arrays.
  A PHP array is an ordered map whose keys are integers or strings, so one type serves for
  JSON arrays and JSON objects alike, as in PHP.

  What is left out: the numbers among the values are the integers, taken unbounded, so
  PHP's floats and the limits of its integer range are outside the model (with the largest
  integer as a key PHP cannot append to an array; here the next key is always free). The
  number a string stands for in a comparison is taken exactly, as a decimal, where PHP
  rounds it to a double.
\<close>

datatype pkey = KInt int | KStr string

datatype pval = PNull | PBool bool | PInt int | PStr string | PArr "(pkey \<times> pval) list"

type_synonym parray = "(pkey \<times> pval) list"

text \<open>The values stored in an array, in order: what \<^verbatim>\<open>foreach ($data as $doc)\<close> visits.\<close>

definition array_values :: "parray \<Rightarrow> pval list" where
  "array_values a = map snd a"

text \<open>\<^verbatim>\<open>$a[$k] = $v\<close>: overwrite in place when the key exists, append otherwise.\<close>

fun array_set :: "parray \<Rightarrow> pkey \<Rightarrow> pval \<Rightarrow> parray" where
  "array_set [] k v = [(k, v)]"
| "array_set ((k', v') # rest) k v =
     (if k' = k then (k, v) # rest else (k', v') # array_set rest k v)"

text \<open>\<^verbatim>\<open>unset($a[$k])\<close>.\<close>

definition array_unset :: "parray \<Rightarrow> pkey \<Rightarrow> parray" where
  "array_unset a k = filter (\<lambda>p. fst p \<noteq> k) a"

text \<open>
  \<^verbatim>\<open>$a[] = $v\<close>: the new key is one more than the largest integer key used so far, and 0
  when there is none (or all are negative).
\<close>

definition next_index :: "parray \<Rightarrow> int" where
  "next_index a = fold (\<lambda>p m. case fst p of KInt i \<Rightarrow> max m (i + 1) | KStr s \<Rightarrow> m) a 0"

definition array_push :: "parray \<Rightarrow> pval \<Rightarrow> parray" where
  "array_push a v = a @ [(KInt (next_index a), v)]"

fun is_array :: "pval \<Rightarrow> bool" where
  "is_array (PArr a) = True"
| "is_array _ = False"

subsection \<open>Characters and decimal numerals\<close>

definition is_digit :: "char \<Rightarrow> bool" where
  "is_digit c = (48 \<le> (of_char c :: nat) \<and> (of_char c :: nat) \<le> 57)"

definition is_alpha :: "char \<Rightarrow> bool" where
  "is_alpha c = ((65 \<le> (of_char c :: nat) \<and> (of_char c :: nat) \<le> 90)
               \<or> (97 \<le> (of_char c :: nat) \<and> (of_char c :: nat) \<le> 122))"

definition is_space :: "char \<Rightarrow> bool" where
  "is_space c = ((of_char c :: nat) = 32 \<or> (9 \<le> (of_char c :: nat) \<and> (of_char c :: nat) \<le> 13))"

definition is_xdigit :: "char \<Rightarrow> bool" where
  "is_xdigit c = (is_digit c \<or> (65 \<le> (of_char c :: nat) \<and> (of_char c :: nat) \<le> 70)
                  \<or> (97 \<le> (of_char c :: nat) \<and> (of_char c :: nat) \<le> 102))"

definition digit_val :: "char \<Rightarrow> nat" where
  "digit_val c = of_char c - 48"

definition digits_val :: "string \<Rightarrow> nat" where
  "digits_val ds = fold (\<lambda>c n. 10 * n + digit_val c) ds 0"

text \<open>The value of a digit of a numeral in a base up to sixteen, and of such a numeral.\<close>

definition xdigit_val :: "char \<Rightarrow> nat" where
  "xdigit_val c = (if is_digit c then of_char c - 48
                   else if 97 \<le> (of_char c :: nat) then of_char c - 87
                   else of_char c - 55)"

definition radix_val :: "nat \<Rightarrow> string \<Rightarrow> nat" where
  "radix_val b ds = fold (\<lambda>c n. b * n + xdigit_val c) ds 0"

fun show_nat :: "nat \<Rightarrow> string" where
  "show_nat n = (if n < 10 then [char_of (48 + n)]
                 else show_nat (n div 10) @ [char_of (48 + n mod 10)])"

declare show_nat.simps [simp del]

definition show_int :: "int \<Rightarrow> string" where
  "show_int i = (if i < 0 then CHR ''-'' # show_nat (nat (- i)) else show_nat (nat i))"

subsection \<open>Conversions\<close>

text \<open>\<^verbatim>\<open>(bool)$v\<close>.\<close>

fun to_bool :: "pval \<Rightarrow> bool" where
  "to_bool PNull = False"
| "to_bool (PBool b) = b"
| "to_bool (PInt i) = (i \<noteq> 0)"
| "to_bool (PStr s) = (s \<noteq> [] \<and> s \<noteq> ''0'')"
| "to_bool (PArr a) = (a \<noteq> [])"

text \<open>\<^verbatim>\<open>empty($v)\<close> is the negation of the boolean cast.\<close>

definition php_empty :: "pval \<Rightarrow> bool" where
  "php_empty v = (\<not> to_bool v)"

text \<open>\<^verbatim>\<open>(string)$v\<close>; an array casts to the text Array (with a notice).\<close>

fun to_string :: "pval \<Rightarrow> string" where
  "to_string PNull = []"
| "to_string (PBool b) = (if b then ''1'' else [])"
| "to_string (PInt i) = show_int i"
| "to_string (PStr s) = s"
| "to_string (PArr a) = ''Array''"

text \<open>
  Reading a string as a number. The number read is a decimal: the pair \<open>(m, e)\<close> stands
  for m times ten to the power e. Two decimals are compared exactly.
\<close>

type_synonym decimal = "int \<times> int"

definition sign_of :: "int \<Rightarrow> int" where
  "sign_of d = (if d < 0 then - 1 else if d > 0 then 1 else 0)"

definition compare_decimal :: "decimal \<Rightarrow> decimal \<Rightarrow> int" where
  "compare_decimal a b =
     (let e = min (snd a) (snd b)
      in sign_of (fst a * 10 ^ nat (snd a - e) - fst b * 10 ^ nat (snd b - e)))"

definition split_sign :: "string \<Rightarrow> bool \<times> string" where
  "split_sign s = (case s of
                     c # r \<Rightarrow> if c = CHR ''-'' then (True, r)
                              else if c = CHR ''+'' then (False, r) else (False, s)
                   | [] \<Rightarrow> (False, s))"

definition signed :: "bool \<Rightarrow> int \<Rightarrow> int" where
  "signed neg n = (if neg then - n else n)"

text \<open>
  An exponent, \<^verbatim>\<open>e\<close> or \<^verbatim>\<open>E\<close> with an optional sign and at least one digit: its value
  and the text after it. Where there is none the value is 0 and nothing is taken.
\<close>

definition exponent_part :: "string \<Rightarrow> int \<times> string" where
  "exponent_part s =
     (case s of
        c # r \<Rightarrow>
          if c = CHR ''e'' \<or> c = CHR ''E'' then
            (let (neg, u) = split_sign r; ds = takeWhile is_digit u
             in if ds = [] then (0, s)
                else (signed neg (int (digits_val ds)), dropWhile is_digit u))
          else (0, s)
      | [] \<Rightarrow> (0, s))"

text \<open>
  An unsigned decimal numeral at the start of a text: digits, then optionally a point and
  further digits, then optionally an exponent; or a point followed by digits. The result is
  the number and the text left over, or None when the text starts with no numeral.
\<close>

definition decimal_prefix :: "string \<Rightarrow> (decimal \<times> string) option" where
  "decimal_prefix u =
     (let ip = takeWhile is_digit u; r1 = dropWhile is_digit u
      in case r1 of
           c # r \<Rightarrow>
             if c = CHR ''.'' \<and> (ip \<noteq> [] \<or> (r \<noteq> [] \<and> is_digit (hd r))) then
               (let fp = takeWhile is_digit r;
                    (x, r3) = exponent_part (dropWhile is_digit r)
                in Some ((int (digits_val (ip @ fp)), x - int (length fp)), r3))
             else if ip = [] then None
             else (let (x, r3) = exponent_part r1 in Some ((int (digits_val ip), x), r3))
         | [] \<Rightarrow> if ip = [] then None else Some ((int (digits_val ip), 0), []))"

text \<open>
  The numeral PHP 5.3 reads at the start of a string: leading white space is skipped; a
  text of more than two characters starting with \<^verbatim>\<open>0x\<close> is a hexadecimal numeral;
  otherwise an optional sign and a decimal numeral.
\<close>

definition hex_start :: "string \<Rightarrow> bool" where
  "hex_start t = (case t of
                    a # b # c # r \<Rightarrow> a = CHR ''0'' \<and> (b = CHR ''x'' \<or> b = CHR ''X'')
                  | _ \<Rightarrow> False)"

definition numeric_prefix :: "string \<Rightarrow> (decimal \<times> string) option" where
  "numeric_prefix s =
     (let t = dropWhile is_space s
      in if hex_start t then
           Some ((int (radix_val 16 (takeWhile is_xdigit (drop 2 t))), 0),
                 dropWhile is_xdigit (drop 2 t))
         else
           (let (neg, u) = split_sign t
            in case decimal_prefix u of
                 None \<Rightarrow> None
               | Some ((m, e), rest) \<Rightarrow> Some ((signed neg m, e), rest)))"

text \<open>A numeric string is one that is a numeral and nothing more.\<close>

definition numeric_string :: "string \<Rightarrow> decimal option" where
  "numeric_string s = (case numeric_prefix s of
                         Some (n, rest) \<Rightarrow> if rest = [] then Some n else None
                       | None \<Rightarrow> None)"

text \<open>The number a string is converted to in a comparison with an integer (PHP 5.3):
  the numeral it starts with, or 0.\<close>

definition string_to_number :: "string \<Rightarrow> decimal" where
  "string_to_number s = (case numeric_prefix s of Some (n, rest) \<Rightarrow> n | None \<Rightarrow> (0, 0))"

text \<open>\<^verbatim>\<open>(int)$s\<close> in PHP 5.3: after white space and a sign, the decimal digits the string
  starts with, 0 when there are none.\<close>

definition string_to_long :: "string \<Rightarrow> int" where
  "string_to_long s =
     (let (neg, u) = split_sign (dropWhile is_space s)
      in signed neg (int (digits_val (takeWhile is_digit u))))"

subsection \<open>Reading a field\<close>

text \<open>
  \<^verbatim>\<open>isset($d[$k])\<close> and the \<^verbatim>\<open>$d[$k]\<close> that the source reads behind it. In an array,
  isset is false for a missing key and for a key holding null. In a string the key is an
  offset (a string key is first cast to an integer, as PHP 5.3 does): isset tells whether
  the offset is within the string, and the value is the character there. Any other value
  has no fields. Where isset is false the value is given as null.
\<close>

definition key_offset :: "pkey \<Rightarrow> int" where
  "key_offset k = (case k of KInt i \<Rightarrow> i | KStr t \<Rightarrow> string_to_long t)"

fun isset_at :: "pval \<Rightarrow> pkey \<Rightarrow> bool" where
  "isset_at (PArr a) k = (case map_of a k of None \<Rightarrow> False | Some v \<Rightarrow> v \<noteq> PNull)"
| "isset_at (PStr s) k = (0 \<le> key_offset k \<and> key_offset k < int (length s))"
| "isset_at _ k = False"

fun value_at :: "pval \<Rightarrow> pkey \<Rightarrow> pval" where
  "value_at (PArr a) k = (case map_of a k of None \<Rightarrow> PNull | Some v \<Rightarrow> v)"
| "value_at (PStr s) k =
     (if 0 \<le> key_offset k \<and> key_offset k < int (length s)
      then PStr [s ! nat (key_offset k)] else PNull)"
| "value_at _ k = PNull"

subsection \<open>Loose comparison\<close>

text \<open>
  The operators \<^verbatim>\<open>==\<close>, \<^verbatim>\<open><=\<close> and \<^verbatim>\<open>>=\<close> of PHP 5.3 all go through one three-way
  comparison, whose result is negative, zero or positive. The engine file declares itself
  strictly PHP 5.3 compatible, so these are the rules of that version.
\<close>

text \<open>Byte-wise string comparison: first difference, then length.\<close>

fun binary_strcmp :: "string \<Rightarrow> string \<Rightarrow> int" where
  "binary_strcmp [] [] = 0"
| "binary_strcmp [] (y # ys) = - 1"
| "binary_strcmp (x # xs) [] = 1"
| "binary_strcmp (x # xs) (y # ys) =
     (if x = y then binary_strcmp xs ys
      else sign_of (int (of_char x) - int (of_char y)))"

text \<open>Two strings: numerically when both are numeric strings, byte-wise otherwise.\<close>

definition smart_str_compare :: "string \<Rightarrow> string \<Rightarrow> int" where
  "smart_str_compare a b =
     (case (numeric_string a, numeric_string b) of
        (Some m, Some n) \<Rightarrow> compare_decimal m n
      | _ \<Rightarrow> binary_strcmp a b)"

text \<open>
  The three-way comparison by the types of its operands. With null or a boolean on either
  side both are compared as booleans, except null against a string, where null stands for
  the empty string. An integer against a string compares with the number the string
  converts to. Two arrays compare by their counts first and then entry by entry, by key; a
  key of the left array that the right one lacks makes them uncomparable, which is the
  result 1. An array against an integer or a string is always the greater.
\<close>

definition bool_int :: "bool \<Rightarrow> int" where
  "bool_int b = (if b then 1 else 0)"

function php_compare :: "pval \<Rightarrow> pval \<Rightarrow> int"
  and compare_elems :: "parray \<Rightarrow> parray \<Rightarrow> int" where
  "php_compare PNull PNull = 0"
| "php_compare PNull (PBool b) = (if b then - 1 else 0)"
| "php_compare PNull (PInt i) = (if to_bool (PInt i) then - 1 else 0)"
| "php_compare PNull (PStr s) = binary_strcmp [] s"
| "php_compare PNull (PArr a) = (if to_bool (PArr a) then - 1 else 0)"
| "php_compare (PBool b) PNull = (if b then 1 else 0)"
| "php_compare (PBool b) (PBool c) = sign_of (bool_int b - bool_int c)"
| "php_compare (PBool b) (PInt i) = sign_of (bool_int b - bool_int (to_bool (PInt i)))"
| "php_compare (PBool b) (PStr s) = sign_of (bool_int b - bool_int (to_bool (PStr s)))"
| "php_compare (PBool b) (PArr a) = sign_of (bool_int b - bool_int (to_bool (PArr a)))"
| "php_compare (PInt i) PNull = (if to_bool (PInt i) then 1 else 0)"
| "php_compare (PInt i) (PBool c) = sign_of (bool_int (to_bool (PInt i)) - bool_int c)"
| "php_compare (PInt i) (PInt j) = sign_of (i - j)"
| "php_compare (PInt i) (PStr s) = compare_decimal (i, 0) (string_to_number s)"
| "php_compare (PInt i) (PArr a) = - 1"
| "php_compare (PStr s) PNull = binary_strcmp s []"
| "php_compare (PStr s) (PBool c) = sign_of (bool_int (to_bool (PStr s)) - bool_int c)"
| "php_compare (PStr s) (PInt j) = compare_decimal (string_to_number s) (j, 0)"
| "php_compare (PStr s) (PStr t) = smart_str_compare s t"
| "php_compare (PStr s) (PArr a) = - 1"
| "php_compare (PArr a) PNull = (if to_bool (PArr a) then 1 else 0)"
| "php_compare (PArr a) (PBool c) = sign_of (bool_int (to_bool (PArr a)) - bool_int c)"
| "php_compare (PArr a) (PInt j) = 1"
| "php_compare (PArr a) (PStr t) = 1"
| "php_compare (PArr a) (PArr b) =
     (if length a \<noteq> length b then int (length a) - int (length b)
      else compare_elems a b)"
| "compare_elems [] b = 0"
| "compare_elems ((k, v) # rest) b =
     (case map_of b k of
        None \<Rightarrow> 1
      | Some w \<Rightarrow> (let r = php_compare v w in if r \<noteq> 0 then r else compare_elems rest b))"
  by pat_completeness auto
termination
  by (relation "measure (\<lambda>x. case x of
          Inl (v, w) \<Rightarrow> size v
        | Inr (a, b) \<Rightarrow> size_list (size_prod (\<lambda>k. 0) size) a)") auto

text \<open>\<^verbatim>\<open>$a == $b\<close>, \<^verbatim>\<open>$a <= $b\<close>, and \<^verbatim>\<open>$a >= $b\<close> (which PHP evaluates as \<^verbatim>\<open>$b <= $a\<close>).\<close>

definition php_eq :: "pval \<Rightarrow> pval \<Rightarrow> bool" where
  "php_eq a b = (php_compare a b = 0)"

definition php_le :: "pval \<Rightarrow> pval \<Rightarrow> bool" where
  "php_le a b = (php_compare a b \<le> 0)"

definition php_ge :: "pval \<Rightarrow> pval \<Rightarrow> bool" where
  "php_ge a b = php_le b a"

text \<open>\<^verbatim>\<open>in_array($needle, $haystack)\<close> without the strict flag: loose equality.\<close>

fun in_array :: "pval \<Rightarrow> pval \<Rightarrow> bool" where
  "in_array needle (PArr a) = list_ex (\<lambda>e. php_eq needle e) (array_values a)"
| "in_array needle _ = False"

section \<open>Pattern matching\<close>

text \<open>
  \<^verbatim>\<open>preg_match\<close> belongs to PHP's PCRE extension. Its front end is modelled: the pattern
  must be a string (an array is rejected), leading white space is skipped, what is left must
  not be empty, and its first character is the delimiter, which must not be a letter, a
  digit or a backslash. The rest (finding the closing delimiter, the modifiers, compiling
  and running the expression) is the engine, a parameter: given the pattern from its
  delimiter on and the subject, it answers None where preg_match returns false, and the
  number of matches (0 or 1) otherwise.
\<close>

type_synonym pcre = "string \<Rightarrow> string \<Rightarrow> int option"

definition preg_match :: "pcre \<Rightarrow> pval \<Rightarrow> string \<Rightarrow> int option" where
  "preg_match eng pattern subject =
     (if is_array pattern then None
      else case dropWhile is_space (to_string pattern) of
             [] \<Rightarrow> None
           | d # rest \<Rightarrow>
               if is_alpha d \<or> is_digit d \<or> d = CHR 0x5C then None
               else eng (d # rest) subject)"

text \<open>The truth value of what preg_match returned: false and 0 are falsy.\<close>

definition matched :: "int option \<Rightarrow> bool" where
  "matched r = (case r of None \<Rightarrow> False | Some n \<Rightarrow> n \<noteq> 0)"

section \<open>JsonDB::match\<close>

definition key_value :: "pkey \<Rightarrow> pval" where
  "key_value k = (case k of KInt i \<Rightarrow> PInt i | KStr s \<Rightarrow> PStr s)"

text \<open>\<^verbatim>\<open>$op == '$eq'\<close>: a loose comparison of the array key with the operator's name.\<close>

definition op_is :: "pkey \<Rightarrow> string \<Rightarrow> bool" where
  "op_is k name = php_eq (key_value k) (PStr name)"

text \<open>
  The inner loop over the operators of one criteria array. False stands for the
  \<^verbatim>\<open>return false\<close> of the source; a key that names no operator is passed over.
\<close>

fun match_ops :: "pcre \<Rightarrow> pval \<Rightarrow> parray \<Rightarrow> bool" where
  "match_ops eng val [] = True"
| "match_ops eng val ((k, expected) # rest) =
     (if op_is k ''$eq'' then (if val \<noteq> expected then False else match_ops eng val rest)
      else if op_is k ''$ne'' then (if val = expected then False else match_ops eng val rest)
      else if op_is k ''$gt'' then
        (if php_le val expected then False else match_ops eng val rest)
      else if op_is k ''$lt'' then
        (if php_ge val expected then False else match_ops eng val rest)
      else if op_is k ''$regex'' then
        (if \<not> matched (preg_match eng expected (to_string val)) then False
         else match_ops eng val rest)
      else if op_is k ''$in'' then
        (if \<not> is_array expected \<or> \<not> in_array val expected then False
         else match_ops eng val rest)
      else match_ops eng val rest)"

text \<open>The outer loop over the fields of the query.\<close>

fun match_fields :: "pcre \<Rightarrow> pval \<Rightarrow> parray \<Rightarrow> bool" where
  "match_fields eng doc [] = True"
| "match_fields eng doc ((key, criteria) # rest) =
     (let val = (if isset_at doc key then value_at doc key else PNull)
      in case criteria of
           PArr ops \<Rightarrow> (if match_ops eng val ops then match_fields eng doc rest else False)
         | _ \<Rightarrow> (if val \<noteq> criteria then False else match_fields eng doc rest))"

text \<open>A query that is not an array gives \<^verbatim>\<open>foreach\<close> nothing to visit.\<close>

definition JsonDB_match :: "pcre \<Rightarrow> pval \<Rightarrow> pval \<Rightarrow> bool" where
  "JsonDB_match eng doc query =
     (case query of PArr q \<Rightarrow> match_fields eng doc q | _ \<Rightarrow> True)"

section \<open>The files of the store\<close>

datatype json = JNull | JBool bool | JNum int | JStr string
  | JArr "json list" | JObj "(string \<times> json) list"

text \<open>
  A string key that is a decimal integer in canonical form is stored by PHP as an integer
  key.
\<close>

definition canonical_int :: "string \<Rightarrow> bool" where
  "canonical_int s =
     (let u = (case s of c # r \<Rightarrow> if c = CHR ''-'' then r else s | [] \<Rightarrow> s)
      in u \<noteq> [] \<and> list_all is_digit u \<and> (hd u \<noteq> CHR ''0'' \<or> s = ''0''))"

definition key_of_string :: "string \<Rightarrow> pkey" where
  "key_of_string s =
     (if canonical_int s then
        (case s of c # r \<Rightarrow> if c = CHR ''-'' then KInt (- int (digits_val r))
                            else KInt (int (digits_val s))
         | [] \<Rightarrow> KStr s)
      else KStr s)"

definition string_of_key :: "pkey \<Rightarrow> string" where
  "string_of_key k = (case k of KInt i \<Rightarrow> show_int i | KStr s \<Rightarrow> s)"

definition list_keys :: "nat \<Rightarrow> pkey list" where
  "list_keys n = map (\<lambda>i. KInt (int i)) [0..<n]"

text \<open>\<^verbatim>\<open>json_decode($text, true)\<close> on text that parses to the given JSON value.\<close>

fun json_decode :: "json \<Rightarrow> pval" where
  "json_decode JNull = PNull"
| "json_decode (JBool b) = PBool b"
| "json_decode (JNum i) = PInt i"
| "json_decode (JStr s) = PStr s"
| "json_decode (JArr xs) = PArr (zip (list_keys (length xs)) (map json_decode xs))"
| "json_decode (JObj kvs) =
     PArr (fold (\<lambda>p a. array_set a (key_of_string (fst p)) (snd p))
             (map (\<lambda>p. (fst p, json_decode (snd p))) kvs) [])"

text \<open>
  \<^verbatim>\<open>json_encode\<close>: an array whose keys are 0, 1, 2, ... in order is written as a JSON
  array, any other as a JSON object.
\<close>

fun json_encode :: "pval \<Rightarrow> json" where
  "json_encode PNull = JNull"
| "json_encode (PBool b) = JBool b"
| "json_encode (PInt i) = JNum i"
| "json_encode (PStr s) = JStr s"
| "json_encode (PArr a) =
     (if map fst a = list_keys (length a) then JArr (map (\<lambda>p. json_encode (snd p)) a)
      else JObj (map (\<lambda>p. (string_of_key (fst p), json_encode (snd p))) a))"

text \<open>
  A file is seen through what reading it gives: nothing (\<^verbatim>\<open>file_get_contents\<close> fails),
  text that is not JSON, or text that parses to a JSON value.
\<close>

datatype file_content = Unreadable | Malformed | Holds json

text \<open>
  The state: the directory of the store, the files by path, the paths on which
  \<^verbatim>\<open>file_put_contents\<close> fails, and the number of writes done so far.
\<close>

record disk =
  dbPath :: string
  files :: "string \<Rightarrow> file_content option"
  write_fails :: "string \<Rightarrow> bool"
  writes :: nat

text \<open>
  What ends a call early: the two exceptions the store throws, and the fatal error with
  which PHP stops on \<^verbatim>\<open>unset\<close> of an offset of a string.
\<close>

datatype error = Invalid_collection_name | Failed_to_write | Cannot_unset_string_offsets

section \<open>JsonDB: the collection store\<close>

definition getFilePath :: "disk \<Rightarrow> string \<Rightarrow> error + string" where
  "getFilePath s collection =
     (let safeName = filter (\<lambda>c. is_alpha c \<or> is_digit c \<or> c = CHR ''_'') collection
      in if php_empty (PStr safeName) then Inl Invalid_collection_name
         else Inr (dbPath s @ safeName @ ''.json''))"

definition readCollection :: "disk \<Rightarrow> string \<Rightarrow> error + parray" where
  "readCollection s collection =
     (case getFilePath s collection of
        Inl e \<Rightarrow> Inl e
      | Inr file \<Rightarrow>
          (case files s file of
             None \<Rightarrow> Inr []
           | Some Unreadable \<Rightarrow> Inr []
           | Some Malformed \<Rightarrow> Inr []
           | Some (Holds j) \<Rightarrow>
               (case json_decode j of PArr data \<Rightarrow> Inr data | _ \<Rightarrow> Inr [])))"

definition writeCollection :: "disk \<Rightarrow> string \<Rightarrow> parray \<Rightarrow> error + disk" where
  "writeCollection s collection data =
     (case getFilePath s collection of
        Inl e \<Rightarrow> Inl e
      | Inr file \<Rightarrow>
          if write_fails s file then Inl Failed_to_write
          else Inr (s\<lparr>files := (files s)(file \<mapsto> Holds (json_encode (PArr data))),
                      writes := writes s + 1\<rparr>))"

text \<open>
  insert. The document is the decoded request body, always an array. \<open>uid\<close> is what
  \<^verbatim>\<open>uniqid('doc_', true)\<close> appends to its prefix on this call.
\<close>

definition JsonDB_insert :: "disk \<Rightarrow> string \<Rightarrow> string \<Rightarrow> parray \<Rightarrow> error + (pval \<times> disk)" where
  "JsonDB_insert s uid collection document =
     (case readCollection s collection of
        Inl e \<Rightarrow> Inl e
      | Inr data \<Rightarrow>
          (let document' = (if \<not> isset_at (PArr document) (KStr ''_id'')
                            then array_set document (KStr ''_id'') (PStr (''doc_'' @ uid))
                            else document);
               data' = array_push data (PArr document')
           in case writeCollection s collection data' of
                Inl e \<Rightarrow> Inl e
              | Inr s' \<Rightarrow> Inr (PArr document', s')))"

text \<open>\<^verbatim>\<open>$results[] = $doc\<close> for each value kept, starting from an empty array.\<close>

definition pushed :: "pval list \<Rightarrow> parray" where
  "pushed vs = fold (\<lambda>v a. array_push a v) vs []"

definition JsonDB_find :: "disk \<Rightarrow> pcre \<Rightarrow> string \<Rightarrow> pval \<Rightarrow> error + parray" where
  "JsonDB_find s eng collection query0 =
     (let query = (if query0 = PNull then PArr [] else query0)
      in case readCollection s collection of
           Inl e \<Rightarrow> Inl e
         | Inr data \<Rightarrow>
             if php_empty query then Inr data
             else Inr (pushed (filter (\<lambda>doc. JsonDB_match eng doc query) (array_values data))))"

text \<open>
  \<^verbatim>\<open>$data[$idx][$k] = $v\<close> on one document. In an array the key is set. Null, false
  and the empty string become an array holding the one entry. In any other string the
  character at the key's offset is replaced by the first character of the value cast to a
  string (the NUL character when that is empty), the string being padded with blanks up to
  the offset when it is shorter; a negative offset changes nothing. Integers and true are
  left as they are.
\<close>

definition put_char :: "string \<Rightarrow> nat \<Rightarrow> char \<Rightarrow> string" where
  "put_char s n c = (if n < length s then s[n := c]
                     else s @ replicate (n - length s) CHR '' '' @ [c])"

definition first_char :: "string \<Rightarrow> char" where
  "first_char t = (case t of [] \<Rightarrow> CHR 0x00 | c # r \<Rightarrow> c)"

fun set_field :: "pval \<Rightarrow> pkey \<Rightarrow> pval \<Rightarrow> pval" where
  "set_field (PArr a) k v = PArr (array_set a k v)"
| "set_field PNull k v = PArr [(k, v)]"
| "set_field (PBool b) k v = (if b then PBool b else PArr [(k, v)])"
| "set_field (PStr s) k v =
     (if s = [] then PArr [(k, v)]
      else if key_offset k < 0 then PStr s
      else PStr (put_char s (nat (key_offset k)) (first_char (to_string v))))"
| "set_field (PInt i) k v = PInt i"

text \<open>
  \<^verbatim>\<open>unset($data[$idx][$k])\<close> on one document: the key is removed from an array, PHP
  stops with a fatal error on a string, and nothing happens on any other value.
\<close>

fun unset_field :: "pval \<Rightarrow> pkey \<Rightarrow> error + pval" where
  "unset_field (PArr a) k = Inr (PArr (array_unset a k))"
| "unset_field (PStr s) k = Inl Cannot_unset_string_offsets"
| "unset_field d k = Inr d"

definition entries :: "pval \<Rightarrow> parray" where
  "entries v = (case v of PArr a \<Rightarrow> a | _ \<Rightarrow> [])"

text \<open>The two inner loops of update, over the entries of \<^verbatim>\<open>$set\<close> and of \<^verbatim>\<open>$unset\<close>.\<close>

fun set_all :: "pval \<Rightarrow> parray \<Rightarrow> pval" where
  "set_all d [] = d"
| "set_all d ((k, v) # rest) = set_all (set_field d k v) rest"

fun unset_all :: "pval \<Rightarrow> parray \<Rightarrow> error + pval" where
  "unset_all d [] = Inr d"
| "unset_all d ((k, v) # rest) =
     (case unset_field d k of Inl e \<Rightarrow> Inl e | Inr d' \<Rightarrow> unset_all d' rest)"

definition apply_update :: "pval \<Rightarrow> pval \<Rightarrow> error + pval" where
  "apply_update doc upd =
     (let d1 = (if isset_at upd (KStr ''$set'')
                then set_all doc (entries (value_at upd (KStr ''$set'')))
                else doc)
      in if isset_at upd (KStr ''$unset'')
         then unset_all d1 (entries (value_at upd (KStr ''$unset'')))
         else Inr d1)"

text \<open>
  The loop of update: the array with the matching documents rewritten, and their count. A
  fatal error ends it at once.
\<close>

fun update_loop :: "pcre \<Rightarrow> pval \<Rightarrow> pval \<Rightarrow> parray \<Rightarrow> error + (parray \<times> nat)" where
  "update_loop eng query upd [] = Inr ([], 0)"
| "update_loop eng query upd ((idx, doc) # rest) =
     (if JsonDB_match eng doc query then
        (case apply_update doc upd of
           Inl e \<Rightarrow> Inl e
         | Inr doc' \<Rightarrow>
             (case update_loop eng query upd rest of
                Inl e \<Rightarrow> Inl e
              | Inr (rest', n) \<Rightarrow> Inr ((idx, doc') # rest', Suc n)))
      else
        (case update_loop eng query upd rest of
           Inl e \<Rightarrow> Inl e
         | Inr (rest', n) \<Rightarrow> Inr ((idx, doc) # rest', n)))"

definition JsonDB_update :: "disk \<Rightarrow> pcre \<Rightarrow> string \<Rightarrow> pval \<Rightarrow> pval \<Rightarrow> error + (nat \<times> disk)" where
  "JsonDB_update s eng collection query upd =
     (case readCollection s collection of
        Inl e \<Rightarrow> Inl e
      | Inr data \<Rightarrow>
          (case update_loop eng query upd data of
             Inl e \<Rightarrow> Inl e
           | Inr (data', modifiedCount) \<Rightarrow>
               if modifiedCount > 0 then
                 (case writeCollection s collection data' of
                    Inl e \<Rightarrow> Inl e
                  | Inr s' \<Rightarrow> Inr (modifiedCount, s'))
               else Inr (modifiedCount, s)))"

definition JsonDB_delete :: "disk \<Rightarrow> pcre \<Rightarrow> string \<Rightarrow> pval \<Rightarrow> error + (int \<times> disk)" where
  "JsonDB_delete s eng collection query =
     (case readCollection s collection of
        Inl e \<Rightarrow> Inl e
      | Inr data \<Rightarrow>
          (let beforeCount = int (length data);
               newData = pushed (filter (\<lambda>doc. \<not> JsonDB_match eng doc query) (array_values data));
               deletedCount = beforeCount - int (length newData)
           in if deletedCount > 0 then
                (case writeCollection s collection newData of
                   Inl e \<Rightarrow> Inl e
                 | Inr s' \<Rightarrow> Inr (deletedCount, s'))
              else Inr (deletedCount, s)))"

section \<open>DbSimulator: the in-browser twin of the engine\<close>

text \<open>
  The TypeScript class DbSimulator keeps the collections in memory and copies them to the
  browser's local storage on every change. Its values are those of JavaScript; numbers are
  again the integers. An array or an object is an object of the heap: it carries its
  identity, a number, beside its content, since JavaScript compares objects by identity.
  Two arrays built apart (one parsed from a query, one stored in a document) have different
  identities; the same array reached twice has one.
\<close>

datatype jsval = VUndefined | VNull | VBool bool | VNum int | VStr string
  | VArr nat "jsval list" | VObj nat "(string \<times> jsval) list"

type_synonym Document = "(string \<times> jsval) list"

text \<open>\<^verbatim>\<open>a === b\<close>; \<^verbatim>\<open>a !== b\<close> is its negation. Primitive values are equal by value,
  objects when they are the same object.\<close>

fun strict_eq :: "jsval \<Rightarrow> jsval \<Rightarrow> bool" where
  "strict_eq VUndefined VUndefined = True"
| "strict_eq VNull VNull = True"
| "strict_eq (VBool a) (VBool b) = (a = b)"
| "strict_eq (VNum a) (VNum b) = (a = b)"
| "strict_eq (VStr a) (VStr b) = (a = b)"
| "strict_eq (VArr r xs) (VArr r' ys) = (r = r')"
| "strict_eq (VObj r kvs) (VObj r' kvs') = (r = r')"
| "strict_eq _ _ = False"

text \<open>\<^verbatim>\<open>String(v)\<close>.\<close>

fun join_with :: "string \<Rightarrow> string list \<Rightarrow> string" where
  "join_with sep [] = []"
| "join_with sep [x] = x"
| "join_with sep (x # y # rest) = x @ sep @ join_with sep (y # rest)"

fun js_string :: "jsval \<Rightarrow> string" where
  "js_string VUndefined = ''undefined''"
| "js_string VNull = ''null''"
| "js_string (VBool b) = (if b then ''true'' else ''false'')"
| "js_string (VNum i) = show_int i"
| "js_string (VStr s) = s"
| "js_string (VArr r xs) =
     join_with '','' (map (\<lambda>x. if x = VUndefined \<or> x = VNull then [] else js_string x) xs)"
| "js_string (VObj r kvs) = ''[object Object]''"

text \<open>
  JavaScript numbers as far as comparisons need them: not-a-number, the two infinities
  (the flag tells the negative one) and the finite ones, taken as exact decimals.
\<close>

datatype jnum = NaN | Infinity bool | Fin decimal

text \<open>
  \<^verbatim>\<open>Number(s)\<close> on a string. The string is trimmed; the empty string is 0; a numeral with
  the prefix \<^verbatim>\<open>0x\<close>, \<^verbatim>\<open>0o\<close> or \<^verbatim>\<open>0b\<close> is read in its base; otherwise an optional sign
  and either Infinity or a decimal numeral, with nothing after it. Anything else is NaN.
\<close>

definition is_odigit :: "char \<Rightarrow> bool" where
  "is_odigit c = (48 \<le> (of_char c :: nat) \<and> (of_char c :: nat) \<le> 55)"

definition is_bdigit :: "char \<Rightarrow> bool" where
  "is_bdigit c = (48 \<le> (of_char c :: nat) \<and> (of_char c :: nat) \<le> 49)"

definition radix_literal :: "string \<Rightarrow> jnum option" where
  "radix_literal t =
     (case t of
        a # b # ds \<Rightarrow>
          if a = CHR ''0'' \<and> (b = CHR ''x'' \<or> b = CHR ''X'') then
            Some (if ds \<noteq> [] \<and> list_all is_xdigit ds then Fin (int (radix_val 16 ds), 0) else NaN)
          else if a = CHR ''0'' \<and> (b = CHR ''o'' \<or> b = CHR ''O'') then
            Some (if ds \<noteq> [] \<and> list_all is_odigit ds then Fin (int (radix_val 8 ds), 0) else NaN)
          else if a = CHR ''0'' \<and> (b = CHR ''b'' \<or> b = CHR ''B'') then
            Some (if ds \<noteq> [] \<and> list_all is_bdigit ds then Fin (int (radix_val 2 ds), 0) else NaN)
          else None
      | _ \<Rightarrow> None)"

definition string_number :: "string \<Rightarrow> jnum" where
  "string_number s =
     (let t = rev (dropWhile is_space (rev (dropWhile is_space s)))
      in if t = [] then Fin (0, 0)
         else case radix_literal t of
                Some n \<Rightarrow> n
              | None \<Rightarrow>
                  (let (neg, u) = split_sign t
                   in if u = ''Infinity'' then Infinity neg
                      else case decimal_prefix u of
                             Some ((m, e), rest) \<Rightarrow>
                               if rest = [] then Fin (signed neg m, e) else NaN
                           | None \<Rightarrow> NaN))"

text \<open>\<^verbatim>\<open>Number(v)\<close>; an array or an object goes through its string.\<close>

fun js_number :: "jsval \<Rightarrow> jnum" where
  "js_number VUndefined = NaN"
| "js_number VNull = Fin (0, 0)"
| "js_number (VBool b) = Fin (if b then 1 else 0, 0)"
| "js_number (VNum i) = Fin (i, 0)"
| "js_number (VStr s) = string_number s"
| "js_number (VArr r xs) = string_number (js_string (VArr r xs))"
| "js_number (VObj r kvs) = string_number (js_string (VObj r kvs))"

text \<open>\<^verbatim>\<open>x < y\<close> on numbers: undefined (None) when either is NaN.\<close>

fun num_less :: "jnum \<Rightarrow> jnum \<Rightarrow> bool option" where
  "num_less NaN y = None"
| "num_less x NaN = None"
| "num_less (Infinity a) (Infinity b) = Some (a \<and> \<not> b)"
| "num_less (Infinity a) (Fin y) = Some a"
| "num_less (Fin x) (Infinity b) = Some (\<not> b)"
| "num_less (Fin x) (Fin y) = Some (compare_decimal x y < 0)"

fun is_object :: "jsval \<Rightarrow> bool" where
  "is_object (VArr r xs) = True"
| "is_object (VObj r kvs) = True"
| "is_object _ = False"

text \<open>
  The relational comparison \<^verbatim>\<open>a < b\<close>, None when a side is NaN. Arrays and objects are
  first turned into their strings; two strings compare by code units, anything else as
  numbers.
\<close>

definition js_less :: "jsval \<Rightarrow> jsval \<Rightarrow> bool option" where
  "js_less a b =
     (let pa = (if is_object a then VStr (js_string a) else a);
          pb = (if is_object b then VStr (js_string b) else b)
      in case (pa, pb) of
           (VStr x, VStr y) \<Rightarrow> Some (binary_strcmp x y < 0)
         | _ \<Rightarrow> num_less (js_number pa) (js_number pb))"

text \<open>\<^verbatim>\<open>a <= b\<close> is true when \<^verbatim>\<open>b < a\<close> is false, and false when it is true or undefined.\<close>

definition js_le :: "jsval \<Rightarrow> jsval \<Rightarrow> bool" where
  "js_le a b = (js_less b a = Some False)"

definition js_ge :: "jsval \<Rightarrow> jsval \<Rightarrow> bool" where
  "js_ge a b = (js_less a b = Some False)"

text \<open>
  \<^verbatim>\<open>new RegExp(p, 'i')\<close> is the browser's: a parameter that, for the pattern text,
  gives None when the constructor throws SyntaxError and otherwise the test of the compiled
  expression. An undefined operand stands for the empty pattern.
\<close>

type_synonym regexp = "string \<Rightarrow> (string \<Rightarrow> bool) option"

definition pattern_text :: "jsval \<Rightarrow> string" where
  "pattern_text v = (if v = VUndefined then ''(?:)'' else js_string v)"

datatype js_error = Collection_not_found | SyntaxError | TypeError

text \<open>The enumerable properties that \<^verbatim>\<open>for (k in v)\<close> and object spread visit, with their values.\<close>

fun own_props :: "jsval \<Rightarrow> (string \<times> jsval) list" where
  "own_props (VObj r kvs) = kvs"
| "own_props (VArr r xs) = zip (map show_nat [0..<length xs]) xs"
| "own_props (VStr s) = zip (map show_nat [0..<length s]) (map (\<lambda>c. VStr [c]) s)"
| "own_props _ = []"

text \<open>\<^verbatim>\<open>doc[key]\<close> among the document's own properties; the properties every object
  inherits (such as constructor) are outside the model.\<close>

definition get_prop :: "Document \<Rightarrow> string \<Rightarrow> jsval" where
  "get_prop doc key = (case map_of doc key of None \<Rightarrow> VUndefined | Some v \<Rightarrow> v)"

text \<open>
  The switch over the operators of one criteria object: Inl is an exception leaving match,
  Inr False the \<^verbatim>\<open>return false\<close>.
\<close>

fun sim_ops :: "regexp \<Rightarrow> jsval \<Rightarrow> (string \<times> jsval) list \<Rightarrow> js_error + bool" where
  "sim_ops re val [] = Inr True"
| "sim_ops re val ((op, expected) # rest) =
     (if op = ''$eq'' then (if \<not> strict_eq val expected then Inr False else sim_ops re val rest)
      else if op = ''$ne'' then (if strict_eq val expected then Inr False else sim_ops re val rest)
      else if op = ''$gt'' then (if js_le val expected then Inr False else sim_ops re val rest)
      else if op = ''$lt'' then (if js_ge val expected then Inr False else sim_ops re val rest)
      else if op = ''$regex'' then
        (case re (pattern_text expected) of
           None \<Rightarrow> Inl SyntaxError
         | Some test \<Rightarrow> if \<not> test (js_string val) then Inr False else sim_ops re val rest)
      else if op = ''$in'' then
        (case expected of
           VArr r xs \<Rightarrow> if \<not> list_ex (\<lambda>e. strict_eq e val) xs then Inr False
                      else sim_ops re val rest
         | _ \<Rightarrow> Inr False)
      else sim_ops re val rest)"

fun sim_fields :: "regexp \<Rightarrow> Document \<Rightarrow> (string \<times> jsval) list \<Rightarrow> js_error + bool" where
  "sim_fields re doc [] = Inr True"
| "sim_fields re doc ((key, criteria) # rest) =
     (let val = get_prop doc key
      in case criteria of
           VObj r ops \<Rightarrow>
             (case sim_ops re val ops of
                Inl e \<Rightarrow> Inl e
              | Inr ok \<Rightarrow> if ok then sim_fields re doc rest else Inr False)
         | _ \<Rightarrow> if \<not> strict_eq val criteria then Inr False else sim_fields re doc rest)"

definition DbSimulator_match :: "regexp \<Rightarrow> Document \<Rightarrow> jsval \<Rightarrow> js_error + bool" where
  "DbSimulator_match re doc query = sim_fields re doc (own_props query)"

record Collection =
  name :: string
  documents :: "Document list"
  createdAt :: int

text \<open>The state of the simulator and what \<^verbatim>\<open>save()\<close> last put into local storage.\<close>

record DatabaseState =
  collections :: "Collection list"
  saved :: "Collection list"

definition save :: "DatabaseState \<Rightarrow> DatabaseState" where
  "save st = st\<lparr>saved := collections st\<rparr>"

text \<open>Replacing the documents of the collection that \<^verbatim>\<open>collections.find\<close> returned.\<close>

fun set_documents :: "string \<Rightarrow> Document list \<Rightarrow> Collection list \<Rightarrow> Collection list" where
  "set_documents n ds [] = []"
| "set_documents n ds (c # cs) =
     (if name c = n then c\<lparr>documents := ds\<rparr> # cs else c # set_documents n ds cs)"

text \<open>\<^verbatim>\<open>{...doc, _id: v}\<close>: the properties of doc, with \<^verbatim>\<open>_id\<close> set last.\<close>

fun with_prop :: "(string \<times> jsval) list \<Rightarrow> string \<Rightarrow> jsval \<Rightarrow> (string \<times> jsval) list" where
  "with_prop [] k v = [(k, v)]"
| "with_prop ((k', v') # rest) k v =
     (if k' = k then (k, v) # rest else (k', v') # with_prop rest k v)"

text \<open>
  insert; \<open>rnd\<close> is \<^verbatim>\<open>Math.random().toString(36).substr(2, 9)\<close> on this call.
\<close>

definition DbSimulator_insert ::
  "DatabaseState \<Rightarrow> string \<Rightarrow> string \<Rightarrow> jsval \<Rightarrow> js_error + (Document \<times> DatabaseState)" where
  "DbSimulator_insert st rnd collectionName doc =
     (case find (\<lambda>c. name c = collectionName) (collections st) of
        None \<Rightarrow> Inl Collection_not_found
      | Some coll \<Rightarrow>
          (let newDoc = with_prop (own_props doc) ''_id'' (VStr (''doc_'' @ rnd))
           in Inr (newDoc,
                   save (st\<lparr>collections :=
                     set_documents collectionName (documents coll @ [newDoc]) (collections st)\<rparr>))))"

text \<open>\<^verbatim>\<open>documents.filter(doc => p(doc))\<close> where the test may throw.\<close>

fun filter_docs :: "(Document \<Rightarrow> js_error + bool) \<Rightarrow> Document list \<Rightarrow> js_error + Document list" where
  "filter_docs p [] = Inr []"
| "filter_docs p (d # ds) =
     (case p d of
        Inl e \<Rightarrow> Inl e
      | Inr keep \<Rightarrow>
          (case filter_docs p ds of
             Inl e \<Rightarrow> Inl e
           | Inr rest \<Rightarrow> Inr (if keep then d # rest else rest)))"

text \<open>find; \<^verbatim>\<open>Object.keys\<close> throws on null, and an undefined query defaults to \<^verbatim>\<open>{}\<close>
  (a new object, whose identity plays no part).\<close>

definition DbSimulator_find ::
  "DatabaseState \<Rightarrow> regexp \<Rightarrow> string \<Rightarrow> jsval \<Rightarrow> js_error + Document list" where
  "DbSimulator_find st re collectionName query0 =
     (let query = (if query0 = VUndefined then VObj 0 [] else query0)
      in case find (\<lambda>c. name c = collectionName) (collections st) of
           None \<Rightarrow> Inr []
         | Some coll \<Rightarrow>
             if query = VNull then Inl TypeError
             else if own_props query = [] then Inr (documents coll)
             else filter_docs (\<lambda>doc. DbSimulator_match re doc query) (documents coll))"

definition DbSimulator_delete ::
  "DatabaseState \<Rightarrow> regexp \<Rightarrow> string \<Rightarrow> jsval \<Rightarrow> js_error + (int \<times> DatabaseState)" where
  "DbSimulator_delete st re collectionName query =
     (case find (\<lambda>c. name c = collectionName) (collections st) of
        None \<Rightarrow> Inr (0, st)
      | Some coll \<Rightarrow>
          (let initialCount = int (length (documents coll))
           in case filter_docs
                     (\<lambda>doc. case DbSimulator_match re doc query of
                               Inl e \<Rightarrow> Inl e | Inr m \<Rightarrow> Inr (\<not> m))
                     (documents coll) of
                Inl e \<Rightarrow> Inl e
              | Inr kept \<Rightarrow>
                  Inr (initialCount - int (length kept),
                       save (st\<lparr>collections :=
                         set_documents collectionName kept (collections st)\<rparr>))))"

section \<open>Properties and sample states\<close>

text \<open>The \<^verbatim>\<open>_id\<close> of a stored document, and the invariant on the ids of a collection:
  every document is a mapping whose \<^verbatim>\<open>_id\<close> is a string and not the empty one, and no two
  documents share an \<^verbatim>\<open>_id\<close>.\<close>

definition id_of :: "pval \<Rightarrow> pval" where
  "id_of d = value_at d (KStr ''_id'')"

definition has_id :: "pval \<Rightarrow> bool" where
  "has_id d = (is_array d \<and> (case id_of d of PStr t \<Rightarrow> t \<noteq> [] | _ \<Rightarrow> False))"

definition ids_ok :: "parray \<Rightarrow> bool" where
  "ids_ok data =
     (list_all has_id (array_values data) \<and> distinct (map id_of (array_values data)))"

text \<open>An update names \<^verbatim>\<open>_id\<close> when \<^verbatim>\<open>_id\<close> is a key of its \<^verbatim>\<open>$set\<close> or of its
  \<^verbatim>\<open>$unset\<close>.\<close>

definition names_id :: "pval \<Rightarrow> bool" where
  "names_id upd =
     (list_ex (\<lambda>p. fst p = KStr ''_id'') (entries (value_at upd (KStr ''$set'')))
      \<or> list_ex (\<lambda>p. fst p = KStr ''_id'') (entries (value_at upd (KStr ''$unset''))))"

text \<open>A JSON value that is neither an array nor an object.\<close>

fun json_scalar :: "json \<Rightarrow> bool" where
  "json_scalar (JArr xs) = False"
| "json_scalar (JObj kvs) = False"
| "json_scalar _ = True"

text \<open>
  The arrays PHP can hold: the keys of an array are distinct, and a string key is never a
  decimal integer in canonical form (PHP would have stored it as an integer key).
\<close>

fun wf_key :: "pkey \<Rightarrow> bool" where
  "wf_key (KInt i) = True"
| "wf_key (KStr s) = (\<not> canonical_int s)"

fun wf_val :: "pval \<Rightarrow> bool" where
  "wf_val (PArr a) = (distinct (map fst a) \<and> list_all (\<lambda>p. wf_key (fst p) \<and> wf_val (snd p)) a)"
| "wf_val _ = True"

text \<open>
  Concrete inputs for the examples below: a PCRE engine that answers false on every
  pattern and a RegExp constructor that always throws (both used only where no pattern is
  evaluated), a store in which every write succeeds and whose
  only file, for the collection users, holds a given JSON value, and a simulator state
  with one collection users.
\<close>

definition no_pcre :: pcre where
  "no_pcre p subject = None"

definition no_regexp :: regexp where
  "no_regexp p = None"

definition never_fails :: "string \<Rightarrow> bool" where
  "never_fails p = False"

definition disk_with :: "json \<Rightarrow> disk" where
  "disk_with j = \<lparr>dbPath = ''db/'', files = [''db/users.json'' \<mapsto> Holds j],
                   write_fails = never_fails, writes = 0\<rparr>"

definition sim_with :: "Document list \<Rightarrow> DatabaseState" where
  "sim_with ds = \<lparr>collections = [\<lparr>name = ''users'', documents = ds, createdAt = 0\<rparr>],
                  saved = []\<rparr>"

section \<open>Basic facts\<close>

lemmas eval_defs = JsonDB_match_def op_is_def php_eq_def key_value_def smart_str_compare_def
  numeric_string_def numeric_prefix_def string_to_number_def php_ge_def php_le_def
  split_sign_def signed_def decimal_prefix_def exponent_part_def hex_start_def
  compare_decimal_def
  is_space_def is_digit_def is_alpha_def sign_of_def preg_match_def matched_def
  array_values_def digits_val_def digit_val_def

lemma value_at_isset: "(if isset_at d k then value_at d k else PNull) = value_at d k"
  by (cases d) (auto split: option.splits)

lemma length_array_values: "length (array_values a) = length a"
  by (simp add: array_values_def)

lemma fold_push_values:
  "array_values (fold (\<lambda>v a. array_push a v) vs a0) = array_values a0 @ vs"
  by (induction vs arbitrary: a0) (auto simp: array_push_def array_values_def)

lemma values_pushed: "array_values (pushed vs) = vs"
  by (simp add: pushed_def fold_push_values) (simp add: array_values_def)

lemma length_pushed: "length (pushed vs) = length vs"
  using values_pushed [of vs] by (metis array_values_def length_map)

lemma next_index_snoc:
  "next_index (a @ [(KInt i, v)]) = max (next_index a) (i + 1)"
  by (simp add: next_index_def)

lemma list_keys_Suc: "list_keys (Suc n) = list_keys n @ [KInt (int n)]"
  by (simp add: list_keys_def)

lemma next_index_list:
  "map fst a = list_keys (length a) \<Longrightarrow> next_index a = int (length a)"
proof (induction a rule: rev_induct)
  case Nil
  then show ?case by (simp add: next_index_def)
next
  case (snoc x a)
  obtain k v where x: "x = (k, v)" by (cases x)
  from snoc.prems x have keys: "map fst a = list_keys (length a)"
    and k: "k = KInt (int (length a))"
    by (simp_all add: list_keys_Suc)
  from snoc.IH [OF keys] x k show ?case
    by (simp add: next_index_snoc)
qed

lemma fold_push_keys:
  "map fst a0 = list_keys (length a0) \<Longrightarrow>
   map fst (fold (\<lambda>v a. array_push a v) vs a0) = list_keys (length a0 + length vs)"
proof (induction vs arbitrary: a0)
  case Nil
  then show ?case by simp
next
  case (Cons v vs)
  have "map fst (array_push a0 v) = list_keys (length (array_push a0 v))"
    using Cons.prems by (simp add: array_push_def next_index_list list_keys_Suc)
  from Cons.IH [OF this] show ?case by (simp add: array_push_def)
qed

lemma keys_pushed: "map fst (pushed vs) = list_keys (length vs)"
  using fold_push_keys [of "[]" vs] by (simp add: pushed_def list_keys_def)

text \<open>The array that find and delete build is written out as a JSON array of its documents.\<close>

lemma encode_pushed: "json_encode (PArr (pushed vs)) = JArr (map json_encode vs)"
proof -
  have "map (\<lambda>p. json_encode (snd p)) (pushed vs) = map json_encode (array_values (pushed vs))"
    by (simp add: array_values_def)
  then show ?thesis
    by (simp add: keys_pushed length_pushed values_pushed)
qed

lemma values_push: "array_values (array_push data d) = array_values data @ [d]"
  by (simp add: array_push_def array_values_def)

lemma match_empty_query: "JsonDB_match eng doc (PArr [])"
  by (simp add: JsonDB_match_def)

lemma update_loop_none:
  "\<forall>doc \<in> set (array_values data). \<not> JsonDB_match eng doc query \<Longrightarrow>
   update_loop eng query upd data = Inr (data, 0)"
  by (induction data) (auto simp: array_values_def)

lemma filter_none:
  "\<forall>doc \<in> set vs. \<not> P doc \<Longrightarrow> filter (\<lambda>doc. \<not> P doc) vs = vs"
  by (induction vs) auto

lemma getFilePath_users: "getFilePath (disk_with j) ''users'' = Inr ''db/users.json''"
  by (simp add: getFilePath_def disk_with_def php_empty_def is_alpha_def is_digit_def)

lemma read_one_doc:
  "readCollection (disk_with (JArr [JObj [(''name'', JStr ''Ann'')]])) ''users''
     = Inr [(KInt 0, PArr [(KStr ''name'', PStr ''Ann'')])]"
  by (simp add: readCollection_def getFilePath_users)
     (simp add: disk_with_def list_keys_def key_of_string_def canonical_int_def is_digit_def)

lemma write_ok:
  "getFilePath s collection = Inr path \<Longrightarrow> \<not> write_fails s path \<Longrightarrow>
   writeCollection s collection data
     = Inr (s\<lparr>files := (files s)(path \<mapsto> Holds (json_encode (PArr data))), writes := writes s + 1\<rparr>)"
  by (simp add: writeCollection_def)

lemma path_after_write:
  "getFilePath (s\<lparr>files := f, writes := w\<rparr>) collection = getFilePath s collection"
  by (simp add: getFilePath_def Let_def)

lemma path_writes: "getFilePath (s\<lparr>writes := w\<rparr>) collection = getFilePath s collection"
  by (simp add: getFilePath_def Let_def)

lemma read_total:
  "getFilePath s collection = Inr path \<Longrightarrow> \<exists>data. readCollection s collection = Inr data"
  by (auto simp: readCollection_def split: option.splits file_content.splits pval.splits)

section \<open>Writing and reading back\<close>

text \<open>
  Decimal numerals are read back as the number they were written from, so an integer key
  survives being written as the name of a JSON member.
\<close>

lemma digit_char:
  "d < 10 \<Longrightarrow> is_digit (char_of (48 + d)) \<and> digit_val (char_of (48 + d)) = d
     \<and> char_of (48 + d) \<noteq> CHR ''-'' \<and> (char_of (48 + d) = CHR ''0'' \<longleftrightarrow> d = 0)"
proof -
  assume d: "d < 10"
  then have m: "(48 + d) mod 256 = 48 + d" by simp
  have o: "of_char (char_of (48 + d) :: char) = 48 + d"
    using m by (simp only: of_char_of)
  have "(char_of (48 + d) = CHR ''0'') = ((of_char (char_of (48 + d)) :: nat) = of_char CHR ''0'')"
    by (simp only: of_char_eq_iff)
  moreover have "(char_of (48 + d) = CHR ''-'') = ((of_char (char_of (48 + d)) :: nat) = of_char CHR ''-'')"
    by (simp only: of_char_eq_iff)
  ultimately show ?thesis using o d by (simp add: is_digit_def digit_val_def)
qed

lemma show_nat_digits: "list_all is_digit (show_nat n)"
proof (induction n rule: show_nat.induct)
  case (1 n)
  show ?case
  proof (cases "n < 10")
    case True
    then show ?thesis using digit_char [of n] by (subst show_nat.simps) simp
  next
    case False
    then show ?thesis using 1 digit_char [of "n mod 10"] by (subst show_nat.simps) simp
  qed
qed

lemma show_nat_nonempty: "show_nat n \<noteq> []"
  by (subst show_nat.simps) simp

lemma digits_val_snoc: "digits_val (ds @ [c]) = 10 * digits_val ds + digit_val c"
  by (simp add: digits_val_def)

lemma digits_val_show_nat: "digits_val (show_nat n) = n"
proof (induction n rule: show_nat.induct)
  case (1 n)
  show ?case
  proof (cases "n < 10")
    case True
    then show ?thesis using digit_char [of n] by (subst show_nat.simps) (simp add: digits_val_def)
  next
    case False
    then show ?thesis using 1 digit_char [of "n mod 10"]
      by (subst show_nat.simps) (simp add: digits_val_snoc)
  qed
qed

lemma hd_show_nat: "hd (show_nat n) \<noteq> CHR ''-'' \<and> (0 < n \<longrightarrow> hd (show_nat n) \<noteq> CHR ''0'')"
proof (induction n rule: show_nat.induct)
  case (1 n)
  show ?case
  proof (cases "n < 10")
    case True
    then show ?thesis using digit_char [of n] by (subst (1 2) show_nat.simps) simp
  next
    case False
    then have "0 < n div 10" by simp
    with False 1 show ?thesis
      by (subst (1 2) show_nat.simps) (simp add: show_nat_nonempty)
  qed
qed

lemma show_nat_zero: "show_nat 0 = ''0''"
  using digit_char [of 0] by (subst show_nat.simps) simp

lemma key_of_show_int: "key_of_string (show_int i) = KInt i"
proof (cases "i < 0")
  case True
  let ?n = "nat (- i)"
  from True have pos: "0 < ?n" by simp
  have "canonical_int (CHR ''-'' # show_nat ?n)"
    using show_nat_digits [of ?n] show_nat_nonempty [of ?n] hd_show_nat [of ?n] pos
    by (simp add: canonical_int_def)
  with True show ?thesis
    by (simp add: key_of_string_def show_int_def digits_val_show_nat)
next
  case False
  let ?n = "nat i"
  obtain c r where cr: "show_nat ?n = c # r"
    using show_nat_nonempty [of ?n] by (cases "show_nat ?n") auto
  have c: "c \<noteq> CHR ''-''" using hd_show_nat [of ?n] cr by simp
  have z: "c = CHR ''0'' \<Longrightarrow> show_nat ?n = ''0''"
  proof -
    assume "c = CHR ''0''"
    with hd_show_nat [of ?n] cr have "?n = 0" by auto
    then show ?thesis by (simp add: show_nat_zero)
  qed
  have "canonical_int (show_nat ?n)"
    using show_nat_digits [of ?n] cr c z by (auto simp: canonical_int_def)
  with False cr c show ?thesis
    using digits_val_show_nat [of ?n]
    by (simp add: key_of_string_def show_int_def)
qed

lemma key_roundtrip:
  assumes "wf_key k"
  shows "key_of_string (string_of_key k) = k"
proof (cases k)
  case (KInt i)
  then show ?thesis by (simp add: string_of_key_def key_of_show_int)
next
  case (KStr s)
  with assms show ?thesis by (simp add: string_of_key_def key_of_string_def)
qed

lemma canonical_int_nonempty: "canonical_int s \<Longrightarrow> s \<noteq> []"
  by (auto simp: canonical_int_def)

lemma key_of_string_wf: "wf_key (key_of_string s)"
proof (cases "canonical_int s")
  case True
  with canonical_int_nonempty [OF True] show ?thesis
    by (cases s) (simp_all add: key_of_string_def)
next
  case False
  then show ?thesis by (simp add: key_of_string_def)
qed

lemma array_set_keys: "set (map fst (array_set a k v)) = insert k (set (map fst a))"
proof (induction a)
  case Nil
  then show ?case by simp
next
  case (Cons p a)
  obtain k' v' where p: "p = (k', v')" by (cases p)
  show ?case
  proof (cases "k' = k")
    case True
    with p show ?thesis by simp
  next
    case False
    with p Cons show ?thesis by (simp add: insert_commute)
  qed
qed

lemma array_set_distinct: "distinct (map fst a) \<Longrightarrow> distinct (map fst (array_set a k v))"
proof (induction a)
  case Nil
  then show ?case by simp
next
  case (Cons p a)
  obtain k' v' where p: "p = (k', v')" by (cases p)
  with Cons show ?case
    using array_set_keys [of a k v] by auto
qed

lemma array_set_all:
  "list_all P a \<Longrightarrow> P (k, v) \<Longrightarrow> list_all P (array_set a k v)"
  by (induction a) auto

lemma array_set_fresh: "k \<notin> set (map fst a) \<Longrightarrow> array_set a k v = a @ [(k, v)]"
  by (induction a) auto

lemma fold_set_wf:
  "distinct (map fst acc) \<Longrightarrow> list_all (\<lambda>p. wf_key (fst p) \<and> wf_val (snd p)) acc \<Longrightarrow>
   list_all (\<lambda>p. wf_val (snd p)) kvs \<Longrightarrow>
   distinct (map fst (fold (\<lambda>p a. array_set a (key_of_string (fst p)) (snd p)) kvs acc))
   \<and> list_all (\<lambda>p. wf_key (fst p) \<and> wf_val (snd p))
        (fold (\<lambda>p a. array_set a (key_of_string (fst p)) (snd p)) kvs acc)"
proof (induction kvs arbitrary: acc)
  case Nil
  then show ?case by simp
next
  case (Cons p kvs)
  have "distinct (map fst (array_set acc (key_of_string (fst p)) (snd p)))"
    using Cons.prems(1) by (rule array_set_distinct)
  moreover have "list_all (\<lambda>p. wf_key (fst p) \<and> wf_val (snd p))
                   (array_set acc (key_of_string (fst p)) (snd p))"
    using Cons.prems(2,3) by (intro array_set_all) (simp_all add: key_of_string_wf)
  moreover have "list_all (\<lambda>p. wf_val (snd p)) kvs" using Cons.prems(3) by simp
  ultimately show ?case using Cons.IH by simp
qed

lemma distinct_list_keys: "distinct (list_keys n)"
  by (simp add: list_keys_def distinct_map inj_on_def)

lemma length_list_keys: "length (list_keys n) = n"
  by (simp add: list_keys_def)

lemma wf_decode: "wf_val (json_decode j)"
proof (induction j)
  case (JArr xs)
  have "list_all (\<lambda>p. wf_key (fst p) \<and> wf_val (snd p))
          (zip (list_keys (length xs)) (map json_decode xs))"
    using JArr
    by (auto simp: list_all_iff list_keys_def set_zip)
  then show ?case by (simp add: distinct_list_keys length_list_keys)
next
  case (JObj kvs)
  have "list_all (\<lambda>p. wf_val (snd p)) (map (\<lambda>p. (fst p, json_decode (snd p))) kvs)"
    using JObj by (auto simp: list_all_iff) 
  from fold_set_wf [OF _ _ this, of "[]"] show ?case by simp
qed simp_all

lemma fold_set_distinct:
  "distinct (map fst kvs) \<Longrightarrow> set (map fst kvs) \<inter> set (map fst acc) = {} \<Longrightarrow>
   fold (\<lambda>p a. array_set a (fst p) (snd p)) kvs acc = acc @ kvs"
proof (induction kvs arbitrary: acc)
  case Nil
  then show ?case by simp
next
  case (Cons p kvs)
  have fresh: "fst p \<notin> set (map fst acc)" using Cons.prems(2) by auto
  have "set (map fst kvs) \<inter> set (map fst (acc @ [p])) = {}"
    using Cons.prems by auto
  with Cons.IH [of "acc @ [p]"] Cons.prems(1) fresh show ?case
    by (simp add: array_set_fresh)
qed

lemma decode_encode: "wf_val v \<Longrightarrow> json_decode (json_encode v) = v"
proof (induction v)
  case (PArr a)
  have elems: "\<And>p. p \<in> set a \<Longrightarrow> json_decode (json_encode (snd p)) = snd p"
    using PArr by (auto simp: list_all_iff) 
  have keys: "\<And>p. p \<in> set a \<Longrightarrow> key_of_string (string_of_key (fst p)) = fst p"
    using PArr.prems by (auto simp: list_all_iff intro: key_roundtrip)
  show ?case
  proof (cases "map fst a = list_keys (length a)")
    case True
    have m: "map json_decode (map (\<lambda>p. json_encode (snd p)) a) = map snd a"
      using elems by (induction a) auto
    have e: "json_encode (PArr a) = JArr (map (\<lambda>p. json_encode (snd p)) a)"
      using True by simp
    have d: "json_decode (JArr (map (\<lambda>p. json_encode (snd p)) a))
               = PArr (zip (list_keys (length a)) (map snd a))"
      by (simp only: json_decode.simps length_map m)
    have "zip (list_keys (length a)) (map snd a) = a"
      using zip_map_fst_snd [of a] by (simp only: True)
    with e d show ?thesis by (simp only:)
  next
    case False
    let ?kvs = "map (\<lambda>p. (string_of_key (fst p), json_encode (snd p))) a"
    have "fold (\<lambda>p acc. array_set acc (key_of_string (fst p)) (snd p))
            (map (\<lambda>p. (fst p, json_decode (snd p))) ?kvs) acc
          = fold (\<lambda>p acc. array_set acc (fst p) (snd p)) a acc" for acc
      using elems keys
    proof (induction a arbitrary: acc)
      case Nil
      then show ?case by simp
    next
      case (Cons p a)
      then show ?case by simp
    qed
    moreover have "fold (\<lambda>p acc. array_set acc (fst p) (snd p)) a [] = a"
      using fold_set_distinct [of a "[]"] PArr.prems by simp
    ultimately show ?thesis using False by simp
  qed
qed simp_all

lemma read_wf: "readCollection s collection = Inr data \<Longrightarrow> wf_val (PArr data)"
proof -
  assume rd: "readCollection s collection = Inr data"
  have "data = [] \<or> (\<exists>j. json_decode j = PArr data)"
    using rd
    by (auto simp: readCollection_def split: sum.splits option.splits file_content.splits pval.splits)
  then show ?thesis
  proof
    assume "data = []" then show ?thesis by simp
  next
    assume "\<exists>j. json_decode j = PArr data"
    then obtain j where "json_decode j = PArr data" ..
    with wf_decode [of j] show ?thesis by simp
  qed
qed

lemma read_back:
  assumes "getFilePath s collection = Inr path" and "wf_val (PArr data)"
  shows "readCollection (s\<lparr>files := (files s)(path \<mapsto> Holds (json_encode (PArr data))),
                            writes := w\<rparr>) collection = Inr data"
proof -
  have "json_decode (json_encode (PArr data)) = PArr data"
    using assms(2) by (rule decode_encode)
  with assms(1) show ?thesis
    by (simp add: readCollection_def path_after_write del: json_encode.simps)
qed

lemma wf_pushed: "list_all wf_val vs \<Longrightarrow> wf_val (PArr (pushed vs))"
proof -
  assume vs: "list_all wf_val vs"
  have k: "list_all wf_key (map fst (pushed vs))"
    by (simp add: keys_pushed list_keys_def list_all_iff)
  have v: "list_all wf_val (map snd (pushed vs))"
    using vs values_pushed [of vs] by (simp add: array_values_def)
  have "list_all (\<lambda>p. wf_key (fst p) \<and> wf_val (snd p)) (pushed vs)"
    using k v by (simp add: list_all_iff)
  then show ?thesis by (simp add: keys_pushed distinct_list_keys)
qed

lemma fold_max_ge:
  "m \<le> fold (\<lambda>p m. case fst p of KInt i \<Rightarrow> max m (i + 1) | KStr s \<Rightarrow> m) a (m::int)"
proof (induction a arbitrary: m)
  case Nil
  then show ?case by simp
next
  case (Cons p a)
  show ?case
  proof (cases "fst p")
    case (KInt i)
    with Cons [of "max m (i + 1)"] show ?thesis by simp
  next
    case (KStr s)
    with Cons [of m] show ?thesis by simp
  qed
qed

lemma next_index_above:
  "KInt i \<in> set (map fst a) \<Longrightarrow>
   i < fold (\<lambda>p m. case fst p of KInt i \<Rightarrow> max m (i + 1) | KStr s \<Rightarrow> m) a m"
proof (induction a arbitrary: m)
  case Nil
  then show ?case by simp
next
  case (Cons p a)
  show ?case
  proof (cases "fst p = KInt i")
    case True
    with fold_max_ge [of "max m (i + 1)" a] show ?thesis by simp
  next
    case False
    with Cons.prems have "KInt i \<in> set (map fst a)" by auto
    from Cons.IH [OF this] show ?thesis by (cases "fst p") simp_all
  qed
qed

lemma wf_push:
  assumes "wf_val (PArr a)" and "wf_val d"
  shows "wf_val (PArr (array_push a d))"
proof -
  have "KInt (next_index a) \<notin> set (map fst a)"
    using next_index_above [of "next_index a" a 0] by (auto simp: next_index_def)
  with assms show ?thesis by (simp add: array_push_def)
qed

lemma wf_array_set:
  "wf_val (PArr a) \<Longrightarrow> wf_key k \<Longrightarrow> wf_val v \<Longrightarrow> wf_val (PArr (array_set a k v))"
  by (simp add: array_set_distinct array_set_all)

lemma wf_id_key: "wf_key (KStr ''_id'')"
  by (simp add: canonical_int_def is_digit_def)

lemma wf_values: "wf_val (PArr a) \<Longrightarrow> list_all wf_val (array_values a)"
  by (simp add: array_values_def list_all_iff)

section \<open>Reading a collection\<close>

text \<open>
  C8, as stated: a backing file that is missing, unreadable or does not decode to a JSON
  array reads as the empty sequence. A file holding a JSON object does not decode to a JSON
  array, yet \<^verbatim>\<open>json_decode($content, true)\<close> turns it into a PHP array, is_array accepts
  it and its members are returned as the documents.
\<close>

theorem read_json_object_counterexample:
  "files (disk_with (JObj [(''a'', JNum 1)])) ''db/users.json'' = Some (Holds (JObj [(''a'', JNum 1)]))
   \<and> readCollection (disk_with (JObj [(''a'', JNum 1)])) ''users'' = Inr [(KStr ''a'', PInt 1)]"
  by (simp add: readCollection_def getFilePath_users)
     (simp add: disk_with_def key_of_string_def canonical_int_def is_digit_def)

lemma decode_scalar: "json_scalar j \<Longrightarrow> json_decode j \<noteq> PArr a"
  by (cases j) auto

text \<open>
  C8, amended: for a collection name that yields a file path, a file that is missing,
  unreadable, not JSON, or holds a JSON value that is neither an array nor an object reads
  as the empty sequence, and no error is raised.
\<close>

theorem read_soft_fail:
  assumes "getFilePath s collection = Inr path"
    and "files s path = None \<or> files s path = Some Unreadable \<or> files s path = Some Malformed
         \<or> (\<exists>j. files s path = Some (Holds j) \<and> json_scalar j)"
  shows "readCollection s collection = Inr []"
  using assms
  by (auto simp: readCollection_def decode_scalar split: pval.splits)

theorem read_soft_fail_witness:
  "getFilePath (disk_with (JStr ''oops'')) ''users'' = Inr ''db/users.json''
   \<and> files (disk_with (JStr ''oops'')) ''db/users.json'' = Some (Holds (JStr ''oops''))
   \<and> json_scalar (JStr ''oops'')
   \<and> readCollection (disk_with (JStr ''oops'')) ''users'' = Inr []"
proof -
  have f: "files (disk_with (JStr ''oops'')) ''db/users.json'' = Some (Holds (JStr ''oops''))"
    by (simp add: disk_with_def)
  then have "files (disk_with (JStr ''oops'')) ''db/users.json'' = None
         \<or> files (disk_with (JStr ''oops'')) ''db/users.json'' = Some Unreadable
         \<or> files (disk_with (JStr ''oops'')) ''db/users.json'' = Some Malformed
         \<or> (\<exists>j. files (disk_with (JStr ''oops'')) ''db/users.json'' = Some (Holds j) \<and> json_scalar j)"
    by simp
  from read_soft_fail [OF getFilePath_users this] f show ?thesis
    by (simp add: getFilePath_users)
qed

text \<open>A name that is empty or 0 once sanitized is refused before any file is looked at;
  the simulator answers the empty sequence for a collection it does not have.\<close>

lemma invalid_name_raises:
  "readCollection s ''!!'' = Inl Invalid_collection_name \<and> readCollection s ''0'' = Inl Invalid_collection_name"
  by (simp add: readCollection_def getFilePath_def php_empty_def is_alpha_def is_digit_def)

lemma DbSimulator_find_missing:
  "find (\<lambda>c. name c = n) (collections st) = None \<Longrightarrow> DbSimulator_find st re n query = Inr []"
  by (simp add: DbSimulator_find_def Let_def)

section \<open>insert\<close>

text \<open>
  The engine's insert: when the name yields a path and the write succeeds, the stored
  document is the input with a generated \<^verbatim>\<open>_id\<close> if it had none set, and the input
  itself otherwise; it is appended to what was read, the whole array is written back and
  the stored document is returned.
\<close>

lemma isset_array_set:
  "v \<noteq> PNull \<Longrightarrow> isset_at (PArr (array_set a k v)) k \<and> value_at (PArr (array_set a k v)) k = v"
  by (induction a) auto

lemma JsonDB_insert_conforms:
  assumes path: "getFilePath s collection = Inr path"
    and ok: "\<not> write_fails s path"
    and rd: "readCollection s collection = Inr data"
    and wf: "wf_val (PArr document)"
  shows "\<exists>stored s'.
           JsonDB_insert s uid collection document = Inr (PArr stored, s')
         \<and> s' = s\<lparr>files := (files s)(path \<mapsto>
                          Holds (json_encode (PArr (array_push data (PArr stored))))),
                    writes := writes s + 1\<rparr>
         \<and> readCollection s' collection = Inr (array_push data (PArr stored))
         \<and> array_values (array_push data (PArr stored)) = array_values data @ [PArr stored]
         \<and> isset_at (PArr stored) (KStr ''_id'')
         \<and> (isset_at (PArr document) (KStr ''_id'') \<longrightarrow> stored = document)
         \<and> (\<not> isset_at (PArr document) (KStr ''_id'') \<longrightarrow>
              stored = array_set document (KStr ''_id'') (PStr (''doc_'' @ uid)))"
proof -
  let ?stored = "if \<not> isset_at (PArr document) (KStr ''_id'')
                 then array_set document (KStr ''_id'') (PStr (''doc_'' @ uid)) else document"
  let ?data' = "array_push data (PArr ?stored)"
  let ?s' = "s\<lparr>files := (files s)(path \<mapsto> Holds (json_encode (PArr ?data'))),
               writes := writes s + 1\<rparr>"
  have ins: "JsonDB_insert s uid collection document = Inr (PArr ?stored, ?s')"
    using path ok rd
    by (simp add: JsonDB_insert_def Let_def write_ok del: json_encode.simps isset_at.simps)
  have wfs: "wf_val (PArr ?stored)"
    using wf wf_array_set [OF wf wf_id_key, of "PStr (''doc_'' @ uid)"] by simp
  have "wf_val (PArr ?data')"
    using read_wf [OF rd] wfs by (rule wf_push)
  from read_back [OF path this] have rb: "readCollection ?s' collection = Inr ?data'" .
  have set: "isset_at (PArr ?stored) (KStr ''_id'')"
    using isset_array_set [of "PStr (''doc_'' @ uid)" document "KStr ''_id''"]
    by (simp del: isset_at.simps)
  from ins rb set show ?thesis
    by (intro exI [of _ ?stored] exI [of _ ?s']) (simp add: values_push del: json_encode.simps isset_at.simps)
qed

text \<open>
  C1. The claim: insert gives a generated \<^verbatim>\<open>_id\<close> only to a document that lacks one, and
  keeps an \<^verbatim>\<open>_id\<close> the caller supplied. DbSimulator.insert builds
  \<^verbatim>\<open>{...doc, _id: generated}\<close>, so it replaces the caller's \<^verbatim>\<open>_id\<close>: inserting a document
  whose \<^verbatim>\<open>_id\<close> is mine stores and returns it under the generated id, whatever the random
  part is.
\<close>

theorem DbSimulator_insert_replaces_id:
  "DbSimulator_insert (sim_with []) rnd ''users''
       (VObj r [(''_id'', VStr ''mine''), (''name'', VStr ''Ann'')])
     = Inr ([(''_id'', VStr (''doc_'' @ rnd)), (''name'', VStr ''Ann'')],
            \<lparr>collections = [\<lparr>name = ''users'',
                  documents = [[(''_id'', VStr (''doc_'' @ rnd)), (''name'', VStr ''Ann'')]],
                  createdAt = 0\<rparr>],
             saved = [\<lparr>name = ''users'',
                  documents = [[(''_id'', VStr (''doc_'' @ rnd)), (''name'', VStr ''Ann'')]],
                  createdAt = 0\<rparr>]\<rparr>)"
  by (simp add: DbSimulator_insert_def sim_with_def save_def Let_def)

section \<open>The query operators\<close>

text \<open>In the engine a field that is absent or null fails \<^verbatim>\<open>$gt\<close> against every operand:
  null is never above anything in PHP's ordering.\<close>

lemma php_compare_null_le: "php_compare PNull e \<le> 0"
proof (cases e)
  case (PStr s)
  then show ?thesis by (cases s) auto
qed auto

lemma gt_null_fails: "\<not> match_ops eng PNull ((KStr ''$gt'', e) # rest)"
  by (simp add: eval_defs php_compare_null_le)

text \<open>
  C2. The claim: a document whose field is absent or null fails both \<^verbatim>\<open>$gt\<close> and
  \<^verbatim>\<open>$lt\<close> for every operand. In the engine a document without the field age satisfies
  \<^verbatim>\<open>{age: {$lt: 5}}\<close>, because \<^verbatim>\<open>null >= 5\<close> is false and the clause only rejects when
  it is true; in the simulator the same document satisfies both \<^verbatim>\<open>{age: {$lt: 5}}\<close> and
  \<^verbatim>\<open>{age: {$gt: 5}}\<close>, because every comparison with undefined is false.
\<close>

theorem lt_absent_field_matches:
  "JsonDB_match eng (PArr [(KStr ''name'', PStr ''x'')])
       (PArr [(KStr ''age'', PArr [(KStr ''$lt'', PInt 5)])])
   \<and> DbSimulator_match re [(''name'', VStr ''x'')] (VObj r [(''age'', VObj r' [(''$lt'', VNum 5)])])
       = Inr True
   \<and> DbSimulator_match re [(''name'', VStr ''x'')] (VObj r [(''age'', VObj r' [(''$gt'', VNum 5)])])
       = Inr True"
  by (simp add: eval_defs DbSimulator_match_def get_prop_def js_le_def js_ge_def js_less_def)

text \<open>
  C3. The claim: the query \<^verbatim>\<open>{email: {$regex: "EXAMPLE"}}\<close> matches the document whose
  email is john@example.com. In the engine the operand goes to preg_match as it is; its
  first character E is a letter and cannot be a delimiter, preg_match returns false and the
  clause rejects the document, whatever the PCRE engine would do.
\<close>

theorem regex_EXAMPLE_no_match:
  "\<not> JsonDB_match eng (PArr [(KStr ''email'', PStr ''john@example.com'')])
        (PArr [(KStr ''email'', PArr [(KStr ''$regex'', PStr ''EXAMPLE'')])])"
  by (simp add: eval_defs)

text \<open>The simulator hands the same operand to \<^verbatim>\<open>new RegExp(p, 'i')\<close> and returns what
  its case-insensitive test says.\<close>

lemma DbSimulator_regex_delegates:
  "re ''EXAMPLE'' = Some test \<Longrightarrow>
   DbSimulator_match re [(''email'', VStr ''john@example.com'')]
       (VObj r [(''email'', VObj r' [(''$regex'', VStr ''EXAMPLE'')])])
     = Inr (test ''john@example.com'')"
  by (auto simp: DbSimulator_match_def get_prop_def pattern_text_def Let_def)

text \<open>
  C4. The claim: \<^verbatim>\<open>$in\<close> matches only when the operand holds an entry identical in type
  and value to the field. The engine calls in_array without the strict flag, so the
  comparison is loose: the number 5 is found in the list holding the string 5.
\<close>

theorem in_matches_loosely:
  "JsonDB_match eng (PArr [(KStr ''age'', PInt 5)])
       (PArr [(KStr ''age'', PArr [(KStr ''$in'', PArr [(KInt 0, PStr ''5'')])])])"
  by (simp add: eval_defs)

text \<open>The simulator's \<^verbatim>\<open>includes\<close> is strict on the same input.\<close>

lemma DbSimulator_in_strict:
  "DbSimulator_match re [(''age'', VNum 5)] (VObj r [(''age'', VObj r' [(''$in'', VArr r'' [VStr ''5''])])])
     = Inr False"
  by (simp add: DbSimulator_match_def get_prop_def)

text \<open>For a criteria that is neither an array nor an object both engines do compare for
  identity: the entry holds exactly when the field value (null in the engine, undefined in
  the simulator, when the field is absent) is the criteria.\<close>

lemma strict_eq_scalar: "\<not> is_object c \<Longrightarrow> strict_eq v c = (v = c)"
  by (cases c; cases v) auto

lemma scalar_criteria_identical:
  "(\<not> is_array criteria \<longrightarrow>
      match_fields eng doc ((key, criteria) # rest)
        = (value_at doc key = criteria \<and> match_fields eng doc rest))
   \<and> (\<not> is_object jcriteria \<longrightarrow>
      sim_fields re jdoc ((jkey, jcriteria) # jrest)
        = (if get_prop jdoc jkey = jcriteria then sim_fields re jdoc jrest else Inr False))"
proof -
  have "match_fields eng doc ((key, criteria) # rest)
          = (value_at doc key = criteria \<and> match_fields eng doc rest)"
    if "\<not> is_array criteria"
    using that by (cases criteria) (auto simp: value_at_isset)
  moreover have "sim_fields re jdoc ((jkey, jcriteria) # jrest)
        = (if get_prop jdoc jkey = jcriteria then sim_fields re jdoc jrest else Inr False)"
    if "\<not> is_object jcriteria"
    using that strict_eq_scalar [OF that, of "get_prop jdoc jkey"]
    by (cases jcriteria) (simp_all add: Let_def)
  ultimately show ?thesis by blast
qed

text \<open>In the simulator an array criteria goes to \<^verbatim>\<open>!==\<close>, which compares identities:
  the entry holds only for the very same array object, whatever the contents are.\<close>

lemma DbSimulator_array_criteria_by_identity:
  "sim_fields re doc ((key, VArr r xs) # rest)
     = (case get_prop doc key of
          VArr r' ys \<Rightarrow> if r' = r then sim_fields re doc rest else Inr False
        | _ \<Rightarrow> Inr False)"
  by (cases "get_prop doc key") (simp_all add: Let_def)

text \<open>
  C5. The claim: a plain criteria of any JSON shape, array literals included, is
  satisfied exactly by an identical field value, type and value. Neither engine does that
  for an array criteria. The engine takes every array for an operator mapping: the document
  whose age is 30 satisfies \<^verbatim>\<open>{age: [30]}\<close>, although 30 is not the array (the simulator
  rejects it). The simulator keeps arrays out of the operator branch but compares them with
  \<^verbatim>\<open>!==\<close>: the document whose tags are the array holding a does not satisfy
  \<^verbatim>\<open>{tags: ["a"]}\<close> when the query's array is another object with the same contents.
\<close>

theorem array_criteria_not_identity:
  "JsonDB_match eng (PArr [(KStr ''age'', PInt 30)])
       (PArr [(KStr ''age'', PArr [(KInt 0, PInt 30)])])
   \<and> value_at (PArr [(KStr ''age'', PInt 30)]) (KStr ''age'') \<noteq> PArr [(KInt 0, PInt 30)]
   \<and> DbSimulator_match re [(''age'', VNum 30)] (VObj r [(''age'', VArr r' [VNum 30])])
       = Inr False
   \<and> DbSimulator_match re [(''tags'', VArr 1 [VStr ''a''])]
         (VObj r [(''tags'', VArr 2 [VStr ''a''])])
       = Inr False"
  by (simp add: eval_defs DbSimulator_match_def get_prop_def)

text \<open>In the engine a pattern that preg_match rejects makes the clause fail and nothing
  more: match returns false.\<close>

lemma preg_false_no_match:
  "preg_match eng pat (to_string (value_at doc key)) = None \<Longrightarrow>
   \<not> JsonDB_match eng doc (PArr [(key, PArr [(KStr ''$regex'', pat)])])"
  by (simp add: JsonDB_match_def value_at_isset op_is_def php_eq_def key_value_def
      smart_str_compare_def numeric_string_def numeric_prefix_def is_space_def is_digit_def
      split_sign_def signed_def decimal_prefix_def exponent_part_def hex_start_def
      matched_def sign_of_def)

text \<open>
  C6. The claim: a malformed \<^verbatim>\<open>$regex\<close> pattern is a non-match and never an error. In
  the simulator \<^verbatim>\<open>new RegExp\<close> throws SyntaxError on such a pattern, for instance on an
  unclosed parenthesis, and nothing catches it: match ends with the exception, whatever
  the document is.
\<close>

theorem DbSimulator_malformed_regex_throws:
  "DbSimulator_match (re(''('' := None)) doc
       (VObj r [(''email'', VObj r' [(''$regex'', VStr ''('')])])
     = Inl SyntaxError"
  by (simp add: DbSimulator_match_def pattern_text_def)

section \<open>update and delete\<close>

text \<open>
  C10. When no document of the collection satisfies the predicate, update and delete
  return 0 and the store is exactly as before: no file has changed and no write was done.
\<close>

theorem no_match_no_write:
  assumes "readCollection s collection = Inr data"
    and "\<forall>doc \<in> set (array_values data). \<not> JsonDB_match eng doc query"
  shows "JsonDB_update s eng collection query upd = Inr (0, s)
         \<and> JsonDB_delete s eng collection query = Inr (0, s)"
proof -
  have kept: "filter (\<lambda>doc. \<not> JsonDB_match eng doc query) (array_values data) = array_values data"
    using assms(2) by (rule filter_none)
  have "JsonDB_update s eng collection query upd = Inr (0, s)"
    using assms by (simp add: JsonDB_update_def update_loop_none)
  moreover have "JsonDB_delete s eng collection query = Inr (0, s)"
    using assms(1) by (simp add: JsonDB_delete_def kept length_pushed length_array_values)
  ultimately show ?thesis by simp
qed

theorem no_match_no_write_witness:
  "JsonDB_update (disk_with (JArr [JObj [(''name'', JStr ''Ann'')]])) no_pcre ''users''
      (PArr [(KStr ''name'', PStr ''Bob'')]) (PArr [(KStr ''$set'', PArr [(KStr ''age'', PInt 1)])])
     = Inr (0, disk_with (JArr [JObj [(''name'', JStr ''Ann'')]]))
   \<and> JsonDB_delete (disk_with (JArr [JObj [(''name'', JStr ''Ann'')]])) no_pcre ''users''
      (PArr [(KStr ''name'', PStr ''Bob'')])
     = Inr (0, disk_with (JArr [JObj [(''name'', JStr ''Ann'')]]))"
  using no_match_no_write [OF read_one_doc, of no_pcre "PArr [(KStr ''name'', PStr ''Bob'')]"]
  by (simp add: array_values_def JsonDB_match_def)

text \<open>
  C7. When the name yields a path and the write succeeds, delete returns the number of
  documents before minus the number kept, where the kept ones are the documents that do
  not satisfy the predicate, in their original order. If that number is positive the file
  is replaced by the JSON array of the kept documents; if it is zero nothing was removed
  and the store is unchanged. With the empty predicate every document is removed, the
  number returned is the size of the collection, and find with the empty predicate then
  returns the empty sequence.
\<close>

theorem delete_removes_matching:
  assumes path: "getFilePath s collection = Inr path"
    and ok: "\<not> write_fails s path"
  shows "\<exists>data n s' data'.
           readCollection s collection = Inr data
         \<and> JsonDB_delete s eng collection query = Inr (n, s')
         \<and> n = int (length data)
               - int (length (filter (\<lambda>d. \<not> JsonDB_match eng d query) (array_values data)))
         \<and> readCollection s' collection = Inr data'
         \<and> array_values data' = filter (\<lambda>d. \<not> JsonDB_match eng d query) (array_values data)
         \<and> (0 < n \<longrightarrow>
              s' = s\<lparr>files := (files s)(path \<mapsto> Holds (JArr (map json_encode
                        (filter (\<lambda>d. \<not> JsonDB_match eng d query) (array_values data))))),
                    writes := writes s + 1\<rparr>)
         \<and> (n = 0 \<longrightarrow> s' = s)
         \<and> (query = PArr [] \<longrightarrow>
              n = int (length data) \<and> JsonDB_find s' eng collection (PArr []) = Inr [])"
proof -
  from read_total [OF path] obtain data where rd: "readCollection s collection = Inr data" ..
  let ?kept = "filter (\<lambda>d. \<not> JsonDB_match eng d query) (array_values data)"
  let ?n = "int (length data) - int (length ?kept)"
  let ?s1 = "s\<lparr>files := (files s)(path \<mapsto> Holds (JArr (map json_encode ?kept))),
               writes := writes s + 1\<rparr>"
  let ?s' = "if 0 < ?n then ?s1 else s"
  let ?data' = "if 0 < ?n then pushed ?kept else data"
  have le: "length ?kept \<le> length data"
    using length_filter_le [of _ "array_values data"] by (simp add: length_array_values)
  have del: "JsonDB_delete s eng collection query = Inr (?n, ?s')"
    using rd path ok
    by (simp add: JsonDB_delete_def Let_def length_pushed write_ok encode_pushed
          del: json_encode.simps)
  have zero: "?kept = array_values data" if "\<not> 0 < ?n"
  proof -
    from that le have "length ?kept = length (array_values data)"
      by (simp add: length_array_values)
    then show ?thesis by (metis filter_True length_filter_less nat_neq_iff)
  qed
  have "list_all wf_val ?kept"
    using wf_values [OF read_wf [OF rd]] by (simp add: list_all_iff)
  then have "wf_val (PArr (pushed ?kept))" by (rule wf_pushed)
  from read_back [OF path this, of "writes s + 1"]
  have rb1: "readCollection ?s1 collection = Inr (pushed ?kept)"
    by (simp only: encode_pushed)
  have rb: "readCollection ?s' collection = Inr ?data'"
    using rb1 rd by simp
  have vals: "array_values ?data' = ?kept"
  proof (cases "0 < ?n")
    case True
    then show ?thesis by (simp add: values_pushed)
  next
    case False
    from zero [OF False] have "array_values data = ?kept" by (rule sym)
    with False show ?thesis by simp
  qed
  have all: "?n = int (length data) \<and> JsonDB_find ?s' eng collection (PArr []) = Inr []"
    if q: "query = PArr []"
  proof -
    from q have kept: "?kept = []" by (simp add: match_empty_query)
    then have "array_values ?data' = []" using vals by simp
    then have "?data' = []" by (simp add: array_values_def)
    with rb have "readCollection ?s' collection = Inr []" by simp
    then have "JsonDB_find ?s' eng collection (PArr []) = Inr []"
      by (simp add: JsonDB_find_def php_empty_def)
    with kept show ?thesis by simp
  qed
  have pos: "0 < ?n \<longrightarrow> ?s' = ?s1" and nz: "?n = 0 \<longrightarrow> ?s' = s" by simp_all
  from rd del rb vals pos nz all show ?thesis by blast
qed

theorem delete_removes_matching_witness:
  "getFilePath (disk_with (JArr [JObj [(''name'', JStr ''Ann'')]])) ''users'' = Inr ''db/users.json''
   \<and> \<not> write_fails (disk_with (JArr [JObj [(''name'', JStr ''Ann'')]])) ''db/users.json''
   \<and> JsonDB_delete (disk_with (JArr [JObj [(''name'', JStr ''Ann'')]])) no_pcre ''users'' (PArr [])
       = Inr (1, (disk_with (JArr []))\<lparr>writes := 1\<rparr>)
   \<and> JsonDB_find ((disk_with (JArr []))\<lparr>writes := 1\<rparr>) no_pcre ''users'' (PArr []) = Inr []"
proof -
  let ?d = "disk_with (JArr [JObj [(''name'', JStr ''Ann'')]])"
  have w: "\<not> write_fails ?d ''db/users.json''"
    by (simp add: disk_with_def never_fails_def)
  have s1: "?d\<lparr>files := (files ?d)(''db/users.json'' \<mapsto> Holds (JArr [])), writes := writes ?d + 1\<rparr>
            = (disk_with (JArr []))\<lparr>writes := 1\<rparr>"
    by (simp add: disk_with_def)
  from delete_removes_matching [OF getFilePath_users w, of no_pcre "PArr []"] s1
  show ?thesis
    using getFilePath_users [of "JArr [JObj [(''name'', JStr ''Ann'')]]"] w
    by (auto simp: read_one_doc match_empty_query array_values_def)
qed

text \<open>The simulator's delete does the same on its list, as long as match does not throw.\<close>

lemma filter_docs_total:
  "\<forall>d \<in> set ds. p d = Inr (P d) \<Longrightarrow> filter_docs p ds = Inr (filter P ds)"
  by (induction ds) auto

lemma DbSimulator_delete_removes:
  assumes "find (\<lambda>c. name c = n) (collections st) = Some coll"
    and "\<forall>d \<in> set (documents coll). DbSimulator_match re d query = Inr (M d)"
  shows "DbSimulator_delete st re n query
           = Inr (int (length (documents coll))
                    - int (length (filter (\<lambda>d. \<not> M d) (documents coll))),
                  save (st\<lparr>collections :=
                     set_documents n (filter (\<lambda>d. \<not> M d) (documents coll)) (collections st)\<rparr>))"
proof -
  have "filter_docs (\<lambda>doc. case DbSimulator_match re doc query of Inl e \<Rightarrow> Inl e | Inr m \<Rightarrow> Inr (\<not> m))
          (documents coll) = Inr (filter (\<lambda>d. \<not> M d) (documents coll))"
    using assms(2) by (intro filter_docs_total) simp
  with assms(1) show ?thesis by (simp add: DbSimulator_delete_def Let_def)
qed

section \<open>The identifiers of a collection\<close>

lemma has_id_array: "has_id d \<Longrightarrow> is_array d"
  by (simp add: has_id_def)

lemma ids_ok_values:
  "array_values data' = array_values data \<Longrightarrow> ids_ok data' = ids_ok data"
  by (simp add: ids_ok_def)

lemma ids_ok_push:
  "ids_ok data \<Longrightarrow> has_id d \<Longrightarrow> id_of d \<notin> set (map id_of (array_values data)) \<Longrightarrow>
   ids_ok (array_push data d)"
  by (simp add: ids_ok_def values_push)

lemma ids_ok_kept:
  "ids_ok data \<Longrightarrow> array_values data' = filter P (array_values data) \<Longrightarrow> ids_ok data'"
  by (simp add: ids_ok_def list_all_iff distinct_map_filter)

text \<open>What delete leaves in the file, read back.\<close>

lemma delete_read_back:
  assumes path: "getFilePath s collection = Inr path"
    and ok: "\<not> write_fails s path"
    and rd: "readCollection s collection = Inr data"
  shows "\<exists>n s' data'.
           JsonDB_delete s eng collection query = Inr (n, s')
         \<and> readCollection s' collection = Inr data'
         \<and> array_values data' = filter (\<lambda>d. \<not> JsonDB_match eng d query) (array_values data)"
proof -
  let ?kept = "filter (\<lambda>d. \<not> JsonDB_match eng d query) (array_values data)"
  let ?n = "int (length data) - int (length ?kept)"
  let ?s1 = "s\<lparr>files := (files s)(path \<mapsto> Holds (json_encode (PArr (pushed ?kept)))),
               writes := writes s + 1\<rparr>"
  show ?thesis
  proof (cases "0 < ?n")
    case True
    then have del: "JsonDB_delete s eng collection query = Inr (?n, ?s1)"
      using rd path ok
      by (simp add: JsonDB_delete_def Let_def length_pushed write_ok del: json_encode.simps)
    have "list_all wf_val ?kept"
      using wf_values [OF read_wf [OF rd]] by (simp add: list_all_iff)
    then have "wf_val (PArr (pushed ?kept))" by (rule wf_pushed)
    from read_back [OF path this, of "writes s + 1"]
    have "readCollection ?s1 collection = Inr (pushed ?kept)" .
    with del values_pushed [of ?kept] show ?thesis by blast
  next
    case False
    then have del: "JsonDB_delete s eng collection query = Inr (?n, s)"
      using rd by (simp add: JsonDB_delete_def Let_def length_pushed)
    have "length ?kept \<le> length (array_values data)" by (rule length_filter_le)
    with False have "length ?kept = length (array_values data)"
      by (simp add: length_array_values)
    then have "?kept = array_values data"
      by (metis filter_True length_filter_less nat_neq_iff)
    with del rd show ?thesis by auto
  qed
qed

text \<open>
  An update that does not name \<^verbatim>\<open>_id\<close> leaves the \<^verbatim>\<open>_id\<close> of a document that is a
  mapping as it was, and the document a mapping.
\<close>

lemma map_of_array_set_other: "k' \<noteq> k \<Longrightarrow> map_of (array_set a k v) k' = map_of a k'"
  by (induction a) auto

lemma map_of_array_unset_other: "k' \<noteq> k \<Longrightarrow> map_of (array_unset a k) k' = map_of a k'"
  by (induction a) (auto simp: array_unset_def)

lemma wf_array_unset: "wf_val (PArr a) \<Longrightarrow> wf_val (PArr (array_unset a k))"
  by (simp add: array_unset_def distinct_map_filter list_all_iff)

lemma set_all_array:
  "\<not> list_ex (\<lambda>p. fst p = k') kvs \<Longrightarrow> wf_val (PArr a) \<Longrightarrow>
   list_all (\<lambda>p. wf_key (fst p) \<and> wf_val (snd p)) kvs \<Longrightarrow>
   \<exists>a'. set_all (PArr a) kvs = PArr a' \<and> map_of a' k' = map_of a k' \<and> wf_val (PArr a')"
proof (induction kvs arbitrary: a)
  case Nil
  then show ?case by simp
next
  case (Cons p kvs)
  obtain k v where p: "p = (k, v)" by (cases p)
  with Cons.prems have ne: "k' \<noteq> k" and rest: "\<not> list_ex (\<lambda>p. fst p = k') kvs"
    and wk: "wf_key k" and wv: "wf_val v"
    and wr: "list_all (\<lambda>p. wf_key (fst p) \<and> wf_val (snd p)) kvs"
    by auto
  have "wf_val (PArr (array_set a k v))"
    using Cons.prems(2) wk wv by (rule wf_array_set)
  from Cons.IH [OF rest this wr]
  obtain a' where "set_all (PArr (array_set a k v)) kvs = PArr a'"
    and "map_of a' k' = map_of (array_set a k v) k'" and "wf_val (PArr a')"
    by blast
  with p ne show ?case by (simp add: map_of_array_set_other)
qed

lemma unset_all_array:
  "\<not> list_ex (\<lambda>p. fst p = k') kvs \<Longrightarrow> wf_val (PArr a) \<Longrightarrow>
   \<exists>a'. unset_all (PArr a) kvs = Inr (PArr a') \<and> map_of a' k' = map_of a k' \<and> wf_val (PArr a')"
proof (induction kvs arbitrary: a)
  case Nil
  then show ?case by simp
next
  case (Cons p kvs)
  obtain k v where p: "p = (k, v)" by (cases p)
  with Cons.prems have ne: "k' \<noteq> k" and rest: "\<not> list_ex (\<lambda>p. fst p = k') kvs"
    by auto
  have "wf_val (PArr (array_unset a k))"
    using Cons.prems(2) by (rule wf_array_unset)
  from Cons.IH [OF rest this]
  obtain a' where "unset_all (PArr (array_unset a k)) kvs = Inr (PArr a')"
    and "map_of a' k' = map_of (array_unset a k) k'" and "wf_val (PArr a')"
    by blast
  with p ne show ?case by (simp add: map_of_array_unset_other)
qed

lemma wf_entries:
  "wf_val v \<Longrightarrow> list_all (\<lambda>p. wf_key (fst p) \<and> wf_val (snd p)) (entries (value_at v k))"
proof (cases v)
  case (PArr a)
  assume wf: "wf_val v"
  show ?thesis
  proof (cases "map_of a k")
    case None
    with PArr show ?thesis by (simp add: entries_def)
  next
    case (Some w)
    then have "(k, w) \<in> set a" by (rule map_of_SomeD)
    with wf PArr have "wf_val w" by (auto simp: list_all_iff)
    with PArr Some show ?thesis by (cases w) (simp_all add: entries_def)
  qed
qed (simp_all add: entries_def)

lemma apply_update_array:
  assumes "\<not> names_id upd" and "wf_val (PArr a)" and "wf_val upd"
  shows "\<exists>a'. apply_update (PArr a) upd = Inr (PArr a')
              \<and> id_of (PArr a') = id_of (PArr a) \<and> wf_val (PArr a')"
proof -
  let ?k = "KStr ''_id''"
  let ?sets = "entries (value_at upd (KStr ''$set''))"
  let ?unsets = "entries (value_at upd (KStr ''$unset''))"
  from assms(1) have ns: "\<not> list_ex (\<lambda>p. fst p = ?k) ?sets"
    and nu: "\<not> list_ex (\<lambda>p. fst p = ?k) ?unsets"
    by (simp_all add: names_id_def)
  let ?d1 = "if isset_at upd (KStr ''$set'') then set_all (PArr a) ?sets else PArr a"
  from set_all_array [OF ns assms(2) wf_entries [OF assms(3)]]
  obtain a1 where a1: "?d1 = PArr a1" "map_of a1 ?k = map_of a ?k" "wf_val (PArr a1)"
    using assms(2) by (cases "isset_at upd (KStr ''$set'')") auto
  let ?d2 = "if isset_at upd (KStr ''$unset'') then unset_all (PArr a1) ?unsets else Inr (PArr a1)"
  from unset_all_array [OF nu a1(3)]
  obtain a2 where a2: "?d2 = Inr (PArr a2)" "map_of a2 ?k = map_of a1 ?k" "wf_val (PArr a2)"
    using a1(3) by (cases "isset_at upd (KStr ''$unset'')") auto
  have "apply_update (PArr a) upd = ?d2"
    using a1(1) by (simp add: apply_update_def Let_def)
  with a1 a2 show ?thesis by (simp add: id_of_def)
qed

lemma update_loop_ids:
  assumes "\<not> names_id upd" and "wf_val upd"
  shows "list_all is_array (array_values data) \<Longrightarrow> wf_val (PArr data) \<Longrightarrow>
         \<exists>data' n. update_loop eng query upd data = Inr (data', n)
           \<and> map fst data' = map fst data
           \<and> list_all is_array (array_values data')
           \<and> map id_of (array_values data') = map id_of (array_values data)
           \<and> list_all (\<lambda>p. wf_val (snd p)) data'
           \<and> (n = 0 \<longrightarrow> data' = data)"
proof (induction data)
  case Nil
  then show ?case by (simp add: array_values_def)
next
  case (Cons p data)
  obtain idx doc where p: "p = (idx, doc)" by (cases p)
  from Cons.prems p obtain a where doc: "doc = PArr a"
    by (cases doc) (simp_all add: array_values_def)
  from Cons.prems p doc have wa: "wf_val (PArr a)" and rest: "list_all is_array (array_values data)"
    and wr: "wf_val (PArr data)"
    by (simp_all add: array_values_def)
  from Cons.IH [OF rest wr]
  obtain data' n where ih: "update_loop eng query upd data = Inr (data', n)"
    "map fst data' = map fst data" "list_all is_array (array_values data')"
    "map id_of (array_values data') = map id_of (array_values data)"
    "list_all (\<lambda>p. wf_val (snd p)) data'" "n = 0 \<longrightarrow> data' = data"
    by blast
  from apply_update_array [OF assms(1) wa assms(2)]
  obtain a' where up: "apply_update (PArr a) upd = Inr (PArr a')"
    "id_of (PArr a') = id_of (PArr a)" "wf_val (PArr a')"
    by blast
  show ?case
  proof (cases "JsonDB_match eng doc query")
    case True
    with p doc ih up show ?thesis by (simp add: array_values_def)
  next
    case False
    with p doc ih wa show ?thesis by (simp add: array_values_def)
  qed
qed

text \<open>What update leaves in the file, read back.\<close>

lemma update_read_back:
  assumes path: "getFilePath s collection = Inr path"
    and ok: "\<not> write_fails s path"
    and rd: "readCollection s collection = Inr data"
    and arrays: "list_all is_array (array_values data)"
    and upd: "wf_val upd" "\<not> names_id upd"
  shows "\<exists>n s' data'.
           JsonDB_update s eng collection query upd = Inr (n, s')
         \<and> readCollection s' collection = Inr data'
         \<and> list_all is_array (array_values data')
         \<and> map id_of (array_values data') = map id_of (array_values data)"
proof -
  have wd: "wf_val (PArr data)" using rd by (rule read_wf)
  from update_loop_ids [OF upd(2) upd(1) arrays wd, of eng query]
  obtain data' n where lp: "update_loop eng query upd data = Inr (data', n)"
    and keys: "map fst data' = map fst data"
    and arr: "list_all is_array (array_values data')"
    and ids: "map id_of (array_values data') = map id_of (array_values data)"
    and wv: "list_all (\<lambda>p. wf_val (snd p)) data'"
    and zero: "n = 0 \<longrightarrow> data' = data"
    by blast
  have "list_all wf_key (map fst data)" using wd by (simp add: list_all_iff)
  then have "list_all wf_key (map fst data')" by (simp only: keys)
  then have "list_all (\<lambda>p. wf_key (fst p)) data'" by (simp add: list_all_iff)
  with wv have "list_all (\<lambda>p. wf_key (fst p) \<and> wf_val (snd p)) data'"
    by (simp add: list_all_iff)
  moreover have "distinct (map fst data')" using wd by (simp add: keys)
  ultimately have wd': "wf_val (PArr data')" by simp
  show ?thesis
  proof (cases "0 < n")
    case True
    let ?s1 = "s\<lparr>files := (files s)(path \<mapsto> Holds (json_encode (PArr data'))),
                 writes := writes s + 1\<rparr>"
    have "JsonDB_update s eng collection query upd = Inr (n, ?s1)"
      using rd lp True path ok
      by (simp add: JsonDB_update_def write_ok del: json_encode.simps)
    moreover from read_back [OF path wd', of "writes s + 1"]
    have "readCollection ?s1 collection = Inr data'" .
    ultimately show ?thesis using arr ids by blast
  next
    case False
    from False zero have "data' = data" by simp
    moreover have "JsonDB_update s eng collection query upd = Inr (n, s)"
      using rd lp False by (simp add: JsonDB_update_def)
    ultimately show ?thesis using rd arrays by blast
  qed
qed

text \<open>
  C9, as stated: every store operation preserves that each persisted document has a
  non-empty \<^verbatim>\<open>_id\<close> of its own, also an insert of a document that carries an \<^verbatim>\<open>_id\<close>.
  Two operations break it. insert keeps the caller's \<^verbatim>\<open>_id\<close> without looking at the
  collection: inserting a document with the \<^verbatim>\<open>_id\<close> of a stored one leaves two documents
  with the same \<^verbatim>\<open>_id\<close> in the file. update assigns whatever \<^verbatim>\<open>$set\<close> names, \<^verbatim>\<open>_id\<close>
  included: setting \<^verbatim>\<open>_id\<close> to z on every document of a collection of two leaves both
  with the \<^verbatim>\<open>_id\<close> z.
\<close>

theorem duplicate_id_counterexample:
  "readCollection (disk_with (JArr [JObj [(''_id'', JStr ''a'')]])) ''users''
     = Inr [(KInt 0, PArr [(KStr ''_id'', PStr ''a'')])]
   \<and> ids_ok [(KInt 0, PArr [(KStr ''_id'', PStr ''a'')])]
   \<and> JsonDB_insert (disk_with (JArr [JObj [(''_id'', JStr ''a'')]])) ''u1'' ''users''
         [(KStr ''_id'', PStr ''a'')]
       = Inr (PArr [(KStr ''_id'', PStr ''a'')],
              (disk_with (JArr [JObj [(''_id'', JStr ''a'')], JObj [(''_id'', JStr ''a'')]]))
                \<lparr>writes := 1\<rparr>)
   \<and> readCollection ((disk_with (JArr [JObj [(''_id'', JStr ''a'')], JObj [(''_id'', JStr ''a'')]]))
                       \<lparr>writes := 1\<rparr>) ''users''
       = Inr [(KInt 0, PArr [(KStr ''_id'', PStr ''a'')]), (KInt 1, PArr [(KStr ''_id'', PStr ''a'')])]
   \<and> \<not> ids_ok [(KInt 0, PArr [(KStr ''_id'', PStr ''a'')]), (KInt 1, PArr [(KStr ''_id'', PStr ''a'')])]
   \<and> readCollection (disk_with (JArr [JObj [(''_id'', JStr ''a'')], JObj [(''_id'', JStr ''b'')]]))
         ''users''
       = Inr [(KInt 0, PArr [(KStr ''_id'', PStr ''a'')]), (KInt 1, PArr [(KStr ''_id'', PStr ''b'')])]
   \<and> ids_ok [(KInt 0, PArr [(KStr ''_id'', PStr ''a'')]), (KInt 1, PArr [(KStr ''_id'', PStr ''b'')])]
   \<and> JsonDB_update (disk_with (JArr [JObj [(''_id'', JStr ''a'')], JObj [(''_id'', JStr ''b'')]]))
         no_pcre ''users'' (PArr []) (PArr [(KStr ''$set'', PArr [(KStr ''_id'', PStr ''z'')])])
       = Inr (2, (disk_with (JArr [JObj [(''_id'', JStr ''z'')], JObj [(''_id'', JStr ''z'')]]))
                   \<lparr>writes := 1\<rparr>)
   \<and> readCollection ((disk_with (JArr [JObj [(''_id'', JStr ''z'')], JObj [(''_id'', JStr ''z'')]]))
                       \<lparr>writes := 1\<rparr>) ''users''
       = Inr [(KInt 0, PArr [(KStr ''_id'', PStr ''z'')]), (KInt 1, PArr [(KStr ''_id'', PStr ''z'')])]
   \<and> \<not> ids_ok [(KInt 0, PArr [(KStr ''_id'', PStr ''z'')]), (KInt 1, PArr [(KStr ''_id'', PStr ''z'')])]"
proof -
  have rd: "readCollection (disk_with (JArr [JObj [(''_id'', JStr x)]])) ''users''
     = Inr [(KInt 0, PArr [(KStr ''_id'', PStr x)])]" for x
    by (simp add: readCollection_def getFilePath_users)
       (simp add: disk_with_def list_keys_def key_of_string_def canonical_int_def is_digit_def)
  have path1: "getFilePath ((disk_with j)\<lparr>writes := 1\<rparr>) ''users'' = Inr ''db/users.json''" for j
    by (simp only: path_writes getFilePath_users)
  have rd2: "readCollection (disk_with (JArr [JObj [(''_id'', JStr x)], JObj [(''_id'', JStr y)]]))
         ''users''
       = Inr [(KInt 0, PArr [(KStr ''_id'', PStr x)]), (KInt 1, PArr [(KStr ''_id'', PStr y)])]" for x y
    by (simp add: readCollection_def getFilePath_users)
       (simp add: disk_with_def list_keys_def key_of_string_def canonical_int_def is_digit_def)
  have rd2w: "readCollection ((disk_with (JArr [JObj [(''_id'', JStr x)], JObj [(''_id'', JStr y)]]))
                       \<lparr>writes := 1\<rparr>) ''users''
       = Inr [(KInt 0, PArr [(KStr ''_id'', PStr x)]), (KInt 1, PArr [(KStr ''_id'', PStr y)])]" for x y
    by (simp only: readCollection_def path1)
       (simp add: disk_with_def list_keys_def key_of_string_def canonical_int_def is_digit_def)
  have ins: "JsonDB_insert (disk_with (JArr [JObj [(''_id'', JStr ''a'')]])) ''u1'' ''users''
         [(KStr ''_id'', PStr ''a'')]
       = Inr (PArr [(KStr ''_id'', PStr ''a'')],
              (disk_with (JArr [JObj [(''_id'', JStr ''a'')], JObj [(''_id'', JStr ''a'')]]))
                \<lparr>writes := 1\<rparr>)"
    by (simp add: JsonDB_insert_def rd writeCollection_def getFilePath_users)
       (simp add: disk_with_def never_fails_def array_push_def next_index_def list_keys_def
          string_of_key_def)
  have upd: "JsonDB_update (disk_with (JArr [JObj [(''_id'', JStr ''a'')], JObj [(''_id'', JStr ''b'')]]))
         no_pcre ''users'' (PArr []) (PArr [(KStr ''$set'', PArr [(KStr ''_id'', PStr ''z'')])])
       = Inr (2, (disk_with (JArr [JObj [(''_id'', JStr ''z'')], JObj [(''_id'', JStr ''z'')]]))
                   \<lparr>writes := 1\<rparr>)"
    by (simp add: JsonDB_update_def rd2 writeCollection_def getFilePath_users JsonDB_match_def
          apply_update_def entries_def)
       (simp add: disk_with_def never_fails_def list_keys_def string_of_key_def)
  have ok1: "ids_ok [(KInt 0, PArr [(KStr ''_id'', PStr ''a'')])]"
    by (simp add: ids_ok_def has_id_def id_of_def array_values_def)
  have ok2: "ids_ok [(KInt 0, PArr [(KStr ''_id'', PStr ''a'')]), (KInt 1, PArr [(KStr ''_id'', PStr ''b'')])]"
    by (simp add: ids_ok_def has_id_def id_of_def array_values_def)
  have bad: "\<not> ids_ok [(KInt 0, PArr [(KStr ''_id'', PStr x)]), (KInt 1, PArr [(KStr ''_id'', PStr x)])]" for x
    by (simp add: ids_ok_def id_of_def array_values_def)
  from rd [of "''a''"] rd2 [of "''a''" "''b''"] rd2w [of "''a''" "''a''"] rd2w [of "''z''" "''z''"]
    ins upd ok1 ok2 bad [of "''a''"] bad [of "''z''"]
  show ?thesis by simp
qed

text \<open>
  C9, amended: on a collection that satisfies the invariant, insert keeps it whenever the
  \<^verbatim>\<open>_id\<close> it stores (the caller's if one is set, the generated one otherwise) is a
  non-empty string that no stored document has; delete keeps it for every predicate;
  update keeps it for every predicate whenever its \<^verbatim>\<open>$set\<close> and \<^verbatim>\<open>$unset\<close> do not name
  \<^verbatim>\<open>_id\<close>. In each case the operation succeeds and the invariant holds of the collection
  read back afterwards. The document and the update are decoded JSON.
\<close>

theorem ids_kept:
  assumes path: "getFilePath s collection = Inr path"
    and ok: "\<not> write_fails s path"
    and rd: "readCollection s collection = Inr data"
    and inv: "ids_ok data"
  shows "(wf_val (PArr document)
            \<and> sid = (if isset_at (PArr document) (KStr ''_id'') then id_of (PArr document)
                     else PStr (''doc_'' @ uid))
            \<and> sid = PStr t \<and> t \<noteq> []
            \<and> sid \<notin> set (map id_of (array_values data))
          \<longrightarrow> (\<exists>d s' data'.
                  JsonDB_insert s uid collection document = Inr (d, s')
                \<and> id_of d = sid
                \<and> readCollection s' collection = Inr data'
                \<and> ids_ok data'))
       \<and> (\<exists>n s' data'.
              JsonDB_delete s eng collection query = Inr (n, s')
            \<and> readCollection s' collection = Inr data'
            \<and> ids_ok data')
       \<and> (wf_val upd \<and> \<not> names_id upd
          \<longrightarrow> (\<exists>n s' data'.
                  JsonDB_update s eng collection query upd = Inr (n, s')
                \<and> readCollection s' collection = Inr data'
                \<and> ids_ok data'))"
proof -
  have insert_part: "\<exists>d s' data'.
                  JsonDB_insert s uid collection document = Inr (d, s')
                \<and> id_of d = sid
                \<and> readCollection s' collection = Inr data'
                \<and> ids_ok data'"
    if wf: "wf_val (PArr document)"
      and sid: "sid = (if isset_at (PArr document) (KStr ''_id'') then id_of (PArr document)
                     else PStr (''doc_'' @ uid))"
      and str: "sid = PStr t" "t \<noteq> []"
      and fresh: "sid \<notin> set (map id_of (array_values data))"
  proof -
    from JsonDB_insert_conforms [OF path ok rd wf, of uid]
    obtain stored s' where
      ins: "JsonDB_insert s uid collection document = Inr (PArr stored, s')"
      and rb: "readCollection s' collection = Inr (array_push data (PArr stored))"
      and keep: "isset_at (PArr document) (KStr ''_id'') \<longrightarrow> stored = document"
      and gen: "\<not> isset_at (PArr document) (KStr ''_id'') \<longrightarrow>
                stored = array_set document (KStr ''_id'') (PStr (''doc_'' @ uid))"
      by blast
    have id: "id_of (PArr stored) = sid"
    proof (cases "isset_at (PArr document) (KStr ''_id'')")
      case True
      with keep sid show ?thesis by simp
    next
      case False
      with gen sid isset_array_set [of "PStr (''doc_'' @ uid)" document "KStr ''_id''"]
      show ?thesis by (simp add: id_of_def)
    qed
    have "has_id (PArr stored)" using id str by (simp add: has_id_def)
    with inv have "ids_ok (array_push data (PArr stored))"
      using id fresh by (intro ids_ok_push) simp_all
    with ins id rb show ?thesis by blast
  qed
  have delete_part: "\<exists>n s' data'.
              JsonDB_delete s eng collection query = Inr (n, s')
            \<and> readCollection s' collection = Inr data'
            \<and> ids_ok data'"
  proof -
    from delete_read_back [OF path ok rd, of eng query]
    obtain n s' data' where "JsonDB_delete s eng collection query = Inr (n, s')"
      and "readCollection s' collection = Inr data'"
      and "array_values data' = filter (\<lambda>d. \<not> JsonDB_match eng d query) (array_values data)"
      by blast
    with ids_ok_kept [OF inv] show ?thesis by blast
  qed
  have update_part: "\<exists>n s' data'.
                  JsonDB_update s eng collection query upd = Inr (n, s')
                \<and> readCollection s' collection = Inr data'
                \<and> ids_ok data'"
    if u: "wf_val upd" "\<not> names_id upd"
  proof -
    have arrays: "list_all is_array (array_values data)"
      using inv by (simp add: ids_ok_def list_all_iff has_id_array)
    from update_read_back [OF path ok rd arrays u, of eng query]
    obtain n s' data' where up: "JsonDB_update s eng collection query upd = Inr (n, s')"
      and rb: "readCollection s' collection = Inr data'"
      and arr: "list_all is_array (array_values data')"
      and ids: "map id_of (array_values data') = map id_of (array_values data)"
      by blast
    have "list_all (\<lambda>d. case id_of d of PStr t \<Rightarrow> t \<noteq> [] | _ \<Rightarrow> False) (array_values data)"
      using inv by (simp add: ids_ok_def has_id_def list_all_iff)
    then have "list_all (\<lambda>i. case i of PStr t \<Rightarrow> t \<noteq> [] | _ \<Rightarrow> False)
                 (map id_of (array_values data))"
      by (simp add: list_all_iff)
    then have "list_all (\<lambda>i. case i of PStr t \<Rightarrow> t \<noteq> [] | _ \<Rightarrow> False)
                 (map id_of (array_values data'))"
      by (simp only: ids)
    then have "list_all (\<lambda>d. case id_of d of PStr t \<Rightarrow> t \<noteq> [] | _ \<Rightarrow> False) (array_values data')"
      by (simp add: list_all_iff)
    with arr have "list_all has_id (array_values data')"
      by (simp add: has_id_def list_all_iff)
    moreover have "distinct (map id_of (array_values data'))"
      using inv by (simp add: ids ids_ok_def)
    ultimately have "ids_ok data'" by (simp add: ids_ok_def)
    with up rb show ?thesis by blast
  qed
  from insert_part delete_part update_part show ?thesis by blast
qed

lemma read_one_id:
  "readCollection (disk_with (JArr [JObj [(''_id'', JStr ''a'')]])) ''users''
     = Inr [(KInt 0, PArr [(KStr ''_id'', PStr ''a'')])]"
  by (simp add: readCollection_def getFilePath_users)
     (simp add: disk_with_def list_keys_def key_of_string_def canonical_int_def is_digit_def)

theorem ids_kept_witness:
  "(\<exists>d s' data'.
       JsonDB_insert (disk_with (JArr [JObj [(''_id'', JStr ''a'')]])) ''u1'' ''users''
           [(KStr ''name'', PStr ''Ann'')] = Inr (d, s')
     \<and> id_of d = PStr ''doc_u1''
     \<and> readCollection s' ''users'' = Inr data'
     \<and> ids_ok data')
   \<and> (\<exists>n s' data'.
       JsonDB_delete (disk_with (JArr [JObj [(''_id'', JStr ''a'')]])) no_pcre ''users''
           (PArr [(KStr ''_id'', PStr ''a'')]) = Inr (n, s')
     \<and> readCollection s' ''users'' = Inr data'
     \<and> ids_ok data')
   \<and> (\<exists>n s' data'.
       JsonDB_update (disk_with (JArr [JObj [(''_id'', JStr ''a'')]])) no_pcre ''users''
           (PArr [(KStr ''_id'', PStr ''a'')])
           (PArr [(KStr ''$set'', PArr [(KStr ''age'', PInt 31)])]) = Inr (n, s')
     \<and> readCollection s' ''users'' = Inr data'
     \<and> ids_ok data')"
proof -
  have w: "\<not> write_fails (disk_with (JArr [JObj [(''_id'', JStr ''a'')]])) ''db/users.json''"
    by (simp add: disk_with_def never_fails_def)
  have inv: "ids_ok [(KInt 0, PArr [(KStr ''_id'', PStr ''a'')])]"
    by (simp add: ids_ok_def has_id_def id_of_def array_values_def)
  have doc: "wf_val (PArr [(KStr ''name'', PStr ''Ann'')])
            \<and> PStr ''doc_u1'' = (if isset_at (PArr [(KStr ''name'', PStr ''Ann'')]) (KStr ''_id'')
                then id_of (PArr [(KStr ''name'', PStr ''Ann'')]) else PStr (''doc_'' @ ''u1''))
            \<and> PStr ''doc_u1'' = PStr ''doc_u1'' \<and> ''doc_u1'' \<noteq> []
            \<and> PStr ''doc_u1''
                \<notin> set (map id_of (array_values [(KInt 0, PArr [(KStr ''_id'', PStr ''a'')])]))"
    by (simp add: canonical_int_def is_digit_def id_of_def array_values_def)
  have upd: "wf_val (PArr [(KStr ''$set'', PArr [(KStr ''age'', PInt 31)])])
            \<and> \<not> names_id (PArr [(KStr ''$set'', PArr [(KStr ''age'', PInt 31)])])"
    by (simp add: canonical_int_def is_digit_def names_id_def entries_def)
  from ids_kept [OF getFilePath_users w read_one_id inv,
      of "[(KStr ''name'', PStr ''Ann'')]" "PStr ''doc_u1''" "''u1''" "''doc_u1''"
         no_pcre "PArr [(KStr ''_id'', PStr ''a'')]"
         "PArr [(KStr ''$set'', PArr [(KStr ''age'', PInt 31)])]"]
    doc upd
  show ?thesis by blast
qed

end
